theory Spec2Isabelle
  imports Complex_Main "HOL-Library.Word" "HOL-Library.Signed_Division" "HOL-Library.Log_Nat"
begin

unbundle bit_operations_syntax

section \<open>Machine integers\<close>

text \<open>
  \<^verbatim>\<open>int\<close> and \<^verbatim>\<open>jint\<close> are 32-bit two's complement integers. Addition wraps around,
  comparisons are signed, and \<^verbatim>\<open>%\<close> is the remainder of the division that truncates
  towards zero.
\<close>

type_synonym jint = "32 word"

definition int_rem :: "jint \<Rightarrow> jint \<Rightarrow> jint" where
  "int_rem a b = word_of_int (sint a smod sint b)"

text \<open>\<^verbatim>\<open>std::min(a, b)\<close> is \<^verbatim>\<open>(b < a) ? b : a\<close> and \<^verbatim>\<open>std::max(a, b)\<close> is
  \<^verbatim>\<open>(a < b) ? b : a\<close>.\<close>

definition int_min :: "jint \<Rightarrow> jint \<Rightarrow> jint" where
  "int_min a b = (if b <s a then b else a)"

definition int_max :: "jint \<Rightarrow> jint \<Rightarrow> jint" where
  "int_max a b = (if a <s b then b else a)"

section \<open>IEEE 754 binary floating point\<close>

text \<open>
  A \<^verbatim>\<open>double\<close> is a binary64 value and a \<^verbatim>\<open>float\<close> a binary32 value. A finite value
  \<open>Fin s m e\<close> stands for \<open>(-1)\<^sup>s \<sqdot> m \<sqdot> 2\<^sup>e\<close>; the sign \<open>s\<close> is \<open>True\<close> for negative values,
  so that both zeros exist. Every operation computes the exact result and rounds it to
  the nearest representable value, ties to even.
\<close>

datatype fp = NaN | Inf bool | Fin bool int int

record fmt =
  prec :: int
  qmin :: int
  qmax :: int

definition binary64 :: fmt where
  "binary64 = \<lparr>prec = 53, qmin = - 1074, qmax = 971\<rparr>"

definition binary32 :: fmt where
  "binary32 = \<lparr>prec = 24, qmin = - 149, qmax = 104\<rparr>"

type_synonym double = fp
type_synonym float = fp

text \<open>\<open>rne k m\<close> is \<open>m / 2\<^sup>k\<close> rounded to the nearest integer, ties to even.\<close>

definition rne :: "nat \<Rightarrow> int \<Rightarrow> int" where
  "rne k m =
     (let q = m div 2 ^ k; r = m mod 2 ^ k in
      if 2 * r < 2 ^ k then q
      else if 2 ^ k < 2 * r then q + 1
      else if even q then q else q + 1)"

text \<open>\<open>fp_round f s m e\<close> rounds the exact value \<open>(-1)\<^sup>s \<sqdot> m \<sqdot> 2\<^sup>e\<close> (with \<open>0 \<le> m\<close>) into
  the format \<open>f\<close>. The \<open>k\<close> lowest bits of \<open>m\<close> are rounded away: as many as exceed the
  precision, or more when the result is subnormal.\<close>

definition fp_round :: "fmt \<Rightarrow> bool \<Rightarrow> int \<Rightarrow> int \<Rightarrow> fp" where
  "fp_round f s m e =
     (if m = 0 then Fin s 0 (qmin f)
      else
        let k = max (bitlen m - prec f) (qmin f - e);
            q = (if k \<le> 0 then m * 2 ^ nat (- k) else rne (nat k) m);
            q' = (if q = 2 ^ nat (prec f) then 2 ^ nat (prec f - 1) else q);
            e' = (if q = 2 ^ nat (prec f) then e + k + 1 else e + k)
        in if qmax f < e' then Inf s else Fin s q' e')"

text \<open>\<open>fp_round_ratio f s a b e\<close> rounds \<open>(-1)\<^sup>s \<sqdot> (a / b) \<sqdot> 2\<^sup>e\<close> for \<open>0 \<le> a\<close> and \<open>0 < b\<close>:
  the quotient is computed to two bits more than the precision, and one more bit records
  whether the division left a remainder.\<close>

definition fp_round_ratio :: "fmt \<Rightarrow> bool \<Rightarrow> int \<Rightarrow> int \<Rightarrow> int \<Rightarrow> fp" where
  "fp_round_ratio f s a b e =
     (let sh = nat (max 0 (prec f + 2 + bitlen b - bitlen a));
          n = a * 2 ^ sh
      in fp_round f s (2 * (n div b) + (if n mod b = 0 then 0 else 1)) (e - int sh - 1))"

definition fp_of_int :: "fmt \<Rightarrow> int \<Rightarrow> fp" where
  "fp_of_int f v = fp_round f (v < 0) \<bar>v\<bar> 0"

text \<open>A decimal literal of the source denotes the nearest representable value.\<close>

definition fp_of_rat :: "fmt \<Rightarrow> int \<Rightarrow> int \<Rightarrow> fp" where
  "fp_of_rat f a b = fp_round_ratio f (a < 0) \<bar>a\<bar> b 0"

definition fp_neg :: "fp \<Rightarrow> fp" where
  "fp_neg x = (case x of NaN \<Rightarrow> NaN | Inf s \<Rightarrow> Inf (\<not> s) | Fin s m e \<Rightarrow> Fin (\<not> s) m e)"

definition signed_mant :: "bool \<Rightarrow> int \<Rightarrow> int" where
  "signed_mant s m = (if s then - m else m)"

definition fp_add :: "fmt \<Rightarrow> fp \<Rightarrow> fp \<Rightarrow> fp" where
  "fp_add f x y =
     (case (x, y) of
        (NaN, _) \<Rightarrow> NaN
      | (_, NaN) \<Rightarrow> NaN
      | (Inf s, Inf t) \<Rightarrow> (if s = t then Inf s else NaN)
      | (Inf s, Fin _ _ _) \<Rightarrow> Inf s
      | (Fin _ _ _, Inf t) \<Rightarrow> Inf t
      | (Fin s m e, Fin t n d) \<Rightarrow>
          (let c = min e d;
               v = signed_mant s m * 2 ^ nat (e - c) + signed_mant t n * 2 ^ nat (d - c)
           in if v = 0 then Fin (s \<and> t) 0 (qmin f) else fp_round f (v < 0) \<bar>v\<bar> c))"

definition fp_sub :: "fmt \<Rightarrow> fp \<Rightarrow> fp \<Rightarrow> fp" where
  "fp_sub f x y = fp_add f x (fp_neg y)"

definition fp_mul :: "fmt \<Rightarrow> fp \<Rightarrow> fp \<Rightarrow> fp" where
  "fp_mul f x y =
     (case (x, y) of
        (NaN, _) \<Rightarrow> NaN
      | (_, NaN) \<Rightarrow> NaN
      | (Inf s, Inf t) \<Rightarrow> Inf (s \<noteq> t)
      | (Inf s, Fin t n _) \<Rightarrow> (if n = 0 then NaN else Inf (s \<noteq> t))
      | (Fin s m _, Inf t) \<Rightarrow> (if m = 0 then NaN else Inf (s \<noteq> t))
      | (Fin s m e, Fin t n d) \<Rightarrow> fp_round f (s \<noteq> t) (m * n) (e + d))"

definition fp_div :: "fmt \<Rightarrow> fp \<Rightarrow> fp \<Rightarrow> fp" where
  "fp_div f x y =
     (case (x, y) of
        (NaN, _) \<Rightarrow> NaN
      | (_, NaN) \<Rightarrow> NaN
      | (Inf s, Inf t) \<Rightarrow> NaN
      | (Inf s, Fin t _ _) \<Rightarrow> Inf (s \<noteq> t)
      | (Fin s _ _, Inf t) \<Rightarrow> Fin (s \<noteq> t) 0 (qmin f)
      | (Fin s m e, Fin t n d) \<Rightarrow>
          (if n = 0 then (if m = 0 then NaN else Inf (s \<noteq> t))
           else if m = 0 then Fin (s \<noteq> t) 0 (qmin f)
           else fp_round_ratio f (s \<noteq> t) m n (e - d)))"

text \<open>Comparisons involving a NaN are false; the two zeros are equal.\<close>

definition fp_lt :: "fp \<Rightarrow> fp \<Rightarrow> bool" where
  "fp_lt x y =
     (case (x, y) of
        (NaN, _) \<Rightarrow> False
      | (_, NaN) \<Rightarrow> False
      | (Inf s, Inf t) \<Rightarrow> s \<and> \<not> t
      | (Inf s, Fin _ _ _) \<Rightarrow> s
      | (Fin _ _ _, Inf t) \<Rightarrow> \<not> t
      | (Fin s m e, Fin t n d) \<Rightarrow>
          (let c = min e d
           in signed_mant s m * 2 ^ nat (e - c) < signed_mant t n * 2 ^ nat (d - c)))"

definition fp_gt :: "fp \<Rightarrow> fp \<Rightarrow> bool" where
  "fp_gt x y = fp_lt y x"

text \<open>The integer part of a finite value, rounded towards zero.\<close>

definition fp_trunc :: "bool \<Rightarrow> int \<Rightarrow> int \<Rightarrow> int" where
  "fp_trunc s m e = signed_mant s (if 0 \<le> e then m * 2 ^ nat e else m div 2 ^ nat (- e))"

text \<open>\<^verbatim>\<open>std::floor\<close> on a \<^verbatim>\<open>double\<close>: infinities, NaN and the zeros are returned
  unchanged.\<close>

definition fp_floor :: "fp \<Rightarrow> fp" where
  "fp_floor x =
     (case x of
        NaN \<Rightarrow> NaN
      | Inf s \<Rightarrow> Inf s
      | Fin s m e \<Rightarrow>
          (if 0 \<le> e then x
           else let v = signed_mant s m div 2 ^ nat (- e)
                in if v = 0 then Fin s 0 (qmin binary64) else fp_of_int binary64 v))"

text \<open>\<^verbatim>\<open>static_cast<float>\<close> of a \<^verbatim>\<open>double\<close>.\<close>

definition float_of_double :: "double \<Rightarrow> float" where
  "float_of_double x =
     (case x of NaN \<Rightarrow> NaN | Inf s \<Rightarrow> Inf s | Fin s m e \<Rightarrow> fp_round binary32 s m e)"


section \<open>The platform\<close>

text \<open>
  Two things are fixed by the platform and not by the program: the \<^verbatim>\<open>std::log2\<close> of
  the C library, and the result of converting to \<^verbatim>\<open>int\<close> a floating-point value whose
  integer part does not fit (or a NaN), which C++ leaves undefined. Both are parameters
  of the model.
\<close>

record platform =
  libm_log2 :: "double \<Rightarrow> double"
  cast_overflow :: "fp \<Rightarrow> jint"

text \<open>\<^verbatim>\<open>static_cast<int>\<close> of a \<^verbatim>\<open>double\<close> or \<^verbatim>\<open>float\<close>: the integer part when it
  fits in 32 bits.\<close>

definition int_of_fp :: "platform \<Rightarrow> fp \<Rightarrow> jint" where
  "int_of_fp pf x =
     (case x of
        Fin s m e \<Rightarrow>
          (let v = fp_trunc s m e
           in if - (2 ^ 31) \<le> v \<and> v < 2 ^ 31 then word_of_int v else cast_overflow pf x)
      | _ \<Rightarrow> cast_overflow pf x)"

text \<open>
  A reference platform, used to evaluate the program on concrete inputs. Its \<^verbatim>\<open>log2\<close>
  computes the binary logarithm of the significand digit by digit in 128-bit fixed point
  (64 digits) and rounds the sum with the exponent; it is exact on the powers of two.
  Its conversion to \<^verbatim>\<open>int\<close> saturates, as the AArch64 instruction does.
\<close>

fun log2_digits :: "nat \<Rightarrow> int \<Rightarrow> int \<Rightarrow> int" where
  "log2_digits 0 y acc = acc"
| "log2_digits (Suc n) y acc =
     (let y2 = (y * y) div 2 ^ 128
      in if 2 ^ 129 \<le> y2 then log2_digits n (y2 div 2) (2 * acc + 1)
         else log2_digits n y2 (2 * acc))"

definition ref_log2 :: "double \<Rightarrow> double" where
  "ref_log2 x =
     (case x of
        NaN \<Rightarrow> NaN
      | Inf s \<Rightarrow> (if s then NaN else Inf False)
      | Fin s m e \<Rightarrow>
          (if m = 0 then Inf True
           else if s then NaN
           else
             let b = bitlen m - 1;
                 y = (if b \<le> 128 then m * 2 ^ nat (128 - b) else m div 2 ^ nat (b - 128));
                 v = (e + b) * 2 ^ 64 + log2_digits 64 y 0
             in if v = 0 then Fin False 0 (qmin binary64)
                else fp_round binary64 (v < 0) \<bar>v\<bar> (- 64)))"

definition saturating_cast :: "fp \<Rightarrow> jint" where
  "saturating_cast x =
     (case x of
        NaN \<Rightarrow> 0
      | Inf s \<Rightarrow> (if s then - 2147483648 else 2147483647)
      | Fin s _ _ \<Rightarrow> (if s then - 2147483648 else 2147483647))"

definition ref_platform :: platform where
  "ref_platform = \<lparr>libm_log2 = ref_log2, cast_overflow = saturating_cast\<rparr>"

abbreviation dadd :: "double \<Rightarrow> double \<Rightarrow> double" where "dadd \<equiv> fp_add binary64"
abbreviation dsub :: "double \<Rightarrow> double \<Rightarrow> double" where "dsub \<equiv> fp_sub binary64"
abbreviation dmul :: "double \<Rightarrow> double \<Rightarrow> double" where "dmul \<equiv> fp_mul binary64"
abbreviation ddiv :: "double \<Rightarrow> double \<Rightarrow> double" where "ddiv \<equiv> fp_div binary64"
abbreviation fadd :: "float \<Rightarrow> float \<Rightarrow> float" where "fadd \<equiv> fp_add binary32"
abbreviation fsub :: "float \<Rightarrow> float \<Rightarrow> float" where "fsub \<equiv> fp_sub binary32"
abbreviation fmul :: "float \<Rightarrow> float \<Rightarrow> float" where "fmul \<equiv> fp_mul binary32"

text \<open>\<open>dlit a b\<close> is the \<^verbatim>\<open>double\<close> literal with the decimal value \<open>a / b\<close>.\<close>

abbreviation dlit :: "int \<Rightarrow> int \<Rightarrow> double" where "dlit \<equiv> fp_of_rat binary64"

text \<open>The implicit conversions of an \<^verbatim>\<open>int\<close> operand to \<^verbatim>\<open>double\<close> and to
  \<^verbatim>\<open>float\<close>.\<close>

definition double_of_jint :: "jint \<Rightarrow> double" where
  "double_of_jint v = fp_of_int binary64 (sint v)"

definition float_of_jint :: "jint \<Rightarrow> float" where
  "float_of_jint v = fp_of_int binary32 (sint v)"

text \<open>\<^verbatim>\<open>std::max(a, b)\<close> on \<^verbatim>\<open>double\<close> is \<^verbatim>\<open>(a < b) ? b : a\<close>.\<close>

definition dmax :: "double \<Rightarrow> double \<Rightarrow> double" where
  "dmax a b = (if fp_lt a b then b else a)"

section \<open>The program\<close>

record AffineTransform =
  zx_x :: double
  zx_y :: double
  zx_c :: double
  zy_x :: double
  zy_y :: double
  zy_c :: double

subsection \<open>Colors\<close>

definition Colors_r :: "jint \<Rightarrow> jint" where
  "Colors_r color = signed_drop_bit 16 color AND 0xFF"

definition Colors_g :: "jint \<Rightarrow> jint" where
  "Colors_g color = signed_drop_bit 8 color AND 0xFF"

definition Colors_b :: "jint \<Rightarrow> jint" where
  "Colors_b color = color AND 0xFF"

definition Colors_rgb :: "jint \<Rightarrow> jint \<Rightarrow> jint \<Rightarrow> jint" where
  "Colors_rgb r g b = push_bit 24 0xFF OR push_bit 16 r OR push_bit 8 g OR b"

subsection \<open>Arrays\<close>

text \<open>The program reads and writes its arrays without a bounds check. The model makes an
  access outside the array an error value.\<close>

datatype error = PaletteIndex | TableIndex | MaskIndex | OutputIndex

definition in_bounds :: "'a list \<Rightarrow> jint \<Rightarrow> bool" where
  "in_bounds xs k \<longleftrightarrow> 0 \<le> sint k \<and> nat (sint k) < length xs"

definition array_get :: "error \<Rightarrow> 'a list \<Rightarrow> jint \<Rightarrow> error + 'a" where
  "array_get err xs k = (if in_bounds xs k then Inr (xs ! nat (sint k)) else Inl err)"

definition array_set :: "error \<Rightarrow> 'a list \<Rightarrow> jint \<Rightarrow> 'a \<Rightarrow> error + 'a list" where
  "array_set err xs k v = (if in_bounds xs k then Inr (xs[nat (sint k) := v]) else Inl err)"

subsection \<open>initNative\<close>

text \<open>The two global tables, 65536 entries each, zero before \<^verbatim>\<open>initNative\<close> runs.\<close>

record LookupTables =
  logMagnitudeLookupTable :: "double list"
  logLogLookupTable :: "double list"

definition initial_tables :: LookupTables where
  "initial_tables =
     \<lparr>logMagnitudeLookupTable = replicate 65536 (dlit 0 1),
      logLogLookupTable = replicate 65536 (dlit 0 1)\<rparr>"

definition logMagnitude_entry :: "platform \<Rightarrow> jint \<Rightarrow> double" where
  "logMagnitude_entry pf i =
     (let input = dadd (dlit 4 1) (dmul (ddiv (double_of_jint i) (dlit 65535 1)) (dlit 32 1))
      in libm_log2 pf input)"

definition logLog_entry :: "platform \<Rightarrow> jint \<Rightarrow> double" where
  "logLog_entry pf i =
     (let input = dadd (dlit 1 1) (dmul (ddiv (double_of_jint i) (dlit 65535 1)) (dlit 1585 1000))
      in libm_log2 pf input)"

lemma sint_succ_jint: "sint i < 2147483647 \<Longrightarrow> sint (i + 1 :: jint) = sint i + 1"
  using sint_ge [of i]
  by (simp add: sint_word_ariths word_size signed_take_bit_int_eq_self)

lemma sint_succ_less: "i <s n \<Longrightarrow> sint (i + 1 :: jint) = sint i + 1"
  using sint_lt [of n] by (intro sint_succ_jint) (simp add: word_sless_alt)

text \<open>The loop \<^verbatim>\<open>for (int i = 0; i < 65536; i++) table[i] = entry(i)\<close>, from the
  current \<open>i\<close>. The index stays within the 65536 entries of the table.\<close>

function fill_table :: "(jint \<Rightarrow> double) \<Rightarrow> jint \<Rightarrow> double list \<Rightarrow> double list" where
  "fill_table entry i tab =
     (if i <s 65536 then fill_table entry (i + 1) (tab[nat (sint i) := entry i]) else tab)"
  by pat_completeness auto
termination
  by (relation "measure (\<lambda>(entry, i, tab). nat (65536 - sint i))")
     (auto simp: sint_succ_jint word_sless_alt)

definition initNative :: "platform \<Rightarrow> LookupTables \<Rightarrow> LookupTables" where
  "initNative pf tabs =
     (let t1 = fill_table (logMagnitude_entry pf) 0 (logMagnitudeLookupTable tabs);
          t2 = fill_table (logLog_entry pf) 0 (logLogLookupTable tabs)
      in \<lparr>logMagnitudeLookupTable = t1, logLogLookupTable = t2\<rparr>)"

subsection \<open>calculate_pixel_color\<close>

text \<open>The wrapped palette index
  \<^verbatim>\<open>((i + colorOffset) % maxIterations + maxIterations) % maxIterations\<close>.\<close>

definition palette_index :: "jint \<Rightarrow> jint \<Rightarrow> jint \<Rightarrow> jint" where
  "palette_index i colorOffset maxIterations =
     int_rem (int_rem (i + colorOffset) maxIterations + maxIterations) maxIterations"

text \<open>The escape-time loop, from the current \<open>i\<close>, \<open>z_re\<close> and \<open>z_im\<close>; it returns their
  final values.\<close>

function escape_loop ::
  "jint \<Rightarrow> double \<Rightarrow> double \<Rightarrow> double \<Rightarrow> jint \<Rightarrow> double \<Rightarrow> double \<Rightarrow> jint \<times> double \<times> double"
where
  "escape_loop maxIterations escapeRadiusSquared c_re c_im i z_re z_im =
     (if i <s maxIterations then
        (let z_re_sq = dmul z_re z_re;
             z_im_sq = dmul z_im z_im
         in if fp_gt (dadd z_re_sq z_im_sq) escapeRadiusSquared then (i, z_re, z_im)
            else
              let next_z_im = dadd (dmul (dmul (dlit 2 1) z_re) z_im) c_im;
                  z_re' = dadd (dsub z_re_sq z_im_sq) c_re
              in escape_loop maxIterations escapeRadiusSquared c_re c_im (i + 1) z_re' next_z_im)
      else (i, z_re, z_im))"
  by pat_completeness auto
termination
  by (relation "measure (\<lambda>(maxIterations, escapeRadiusSquared, c_re, c_im, i, z_re, z_im).
        nat (sint maxIterations - sint i))")
     (auto simp: sint_succ_less word_sless_alt)

declare escape_loop.simps [simp del]
declare fill_table.simps [simp del]

text \<open>The clamped indices into the two tables, \<^verbatim>\<open>index\<close> and \<^verbatim>\<open>nuIndex\<close>.\<close>

definition logMagnitude_index :: "platform \<Rightarrow> double \<Rightarrow> double \<Rightarrow> jint" where
  "logMagnitude_index pf magSq logMagnitudeScaleFactor =
     (let index = int_of_fp pf (dmul (dsub magSq (dlit 4 1)) logMagnitudeScaleFactor)
      in int_max 0 (int_min index 65535))"

definition logLog_index :: "platform \<Rightarrow> double \<Rightarrow> double \<Rightarrow> jint" where
  "logLog_index pf logZn logLogScaleFactor =
     (let nuIndex = int_of_fp pf (dmul (dsub logZn (dlit 1 1)) logLogScaleFactor)
      in int_max 0 (int_min nuIndex 65535))"

text \<open>The value \<^verbatim>\<open>nu\<close> of an escaped pixel, by the tables or by \<^verbatim>\<open>std::log2\<close>.\<close>

definition smooth_nu ::
  "platform \<Rightarrow> LookupTables \<Rightarrow> bool \<Rightarrow> double \<Rightarrow> double \<Rightarrow> double \<Rightarrow> double \<Rightarrow> error + double"
where
  "smooth_nu pf tabs useLog2Lookup magSq logMagnitudeScaleFactor logLogScaleFactor log2_2 =
     (if useLog2Lookup then
        (let index = logMagnitude_index pf magSq logMagnitudeScaleFactor
         in case array_get TableIndex (logMagnitudeLookupTable tabs) index of
              Inl err \<Rightarrow> Inl err
            | Inr entry \<Rightarrow>
                (let logZn = ddiv entry (dlit 2 1);
                     nuIndex = logLog_index pf logZn logLogScaleFactor
                 in case array_get TableIndex (logLogLookupTable tabs) nuIndex of
                      Inl err \<Rightarrow> Inl err
                    | Inr entry' \<Rightarrow> Inr (ddiv entry' log2_2)))
      else
        (let logZn = ddiv (libm_log2 pf magSq) (dlit 2 1)
         in Inr (ddiv (libm_log2 pf logZn) log2_2)))"

definition continuous_index :: "jint \<Rightarrow> double \<Rightarrow> double" where
  "continuous_index i nu = dmax (dlit 0 1) (dsub (double_of_jint (i + 1)) nu)"

definition fraction_of :: "double \<Rightarrow> float" where
  "fraction_of continuousIndex =
     float_of_double (dsub continuousIndex (fp_floor continuousIndex))"

text \<open>One channel of the interpolated colour:
  \<^verbatim>\<open>static_cast<int>(c1 * (1 - fraction) + c2 * fraction)\<close>, computed in \<^verbatim>\<open>float\<close>.\<close>

definition lerp_channel :: "platform \<Rightarrow> jint \<Rightarrow> jint \<Rightarrow> float \<Rightarrow> jint" where
  "lerp_channel pf c1 c2 fraction =
     int_of_fp pf
       (fadd (fmul (float_of_jint c1) (fsub (float_of_jint 1) fraction))
             (fmul (float_of_jint c2) fraction))"

definition interpolate :: "platform \<Rightarrow> jint \<Rightarrow> jint \<Rightarrow> float \<Rightarrow> jint" where
  "interpolate pf color1 color2 fraction =
     (let r = lerp_channel pf (Colors_r color1) (Colors_r color2) fraction;
          g = lerp_channel pf (Colors_g color1) (Colors_g color2) fraction;
          b = lerp_channel pf (Colors_b color1) (Colors_b color2) fraction
      in Colors_rgb r g b)"

definition smooth_color ::
  "platform \<Rightarrow> jint list \<Rightarrow> jint \<Rightarrow> jint \<Rightarrow> jint \<Rightarrow> double \<Rightarrow> error + jint"
where
  "smooth_color pf colorPalette colorOffset maxIterations i nu =
     (let continuousIndex = continuous_index i nu;
          index1 = int_of_fp pf continuousIndex;
          index2 = index1 + 1;
          localMaxIterations = maxIterations
      in case array_get PaletteIndex colorPalette
                (palette_index index1 colorOffset localMaxIterations) of
           Inl err \<Rightarrow> Inl err
         | Inr color1 \<Rightarrow>
             (case array_get PaletteIndex colorPalette
                     (palette_index index2 colorOffset localMaxIterations) of
                Inl err \<Rightarrow> Inl err
              | Inr color2 \<Rightarrow>
                  Inr (interpolate pf color1 color2 (fraction_of continuousIndex))))"

definition pixel_c :: "AffineTransform \<Rightarrow> jint \<Rightarrow> jint \<Rightarrow> double \<times> double" where
  "pixel_c transform x y =
     (let c_re = dadd (dadd (dmul (zx_x transform) (double_of_jint x))
                            (dmul (zx_y transform) (double_of_jint y))) (zx_c transform);
          c_im = dadd (dadd (dmul (zy_x transform) (double_of_jint x))
                            (dmul (zy_y transform) (double_of_jint y))) (zy_c transform)
      in (c_re, c_im))"

definition calculate_pixel_color ::
  "platform \<Rightarrow> LookupTables \<Rightarrow> jint \<Rightarrow> jint \<Rightarrow> AffineTransform \<Rightarrow> jint \<Rightarrow> double \<Rightarrow>
   jint list \<Rightarrow> jint \<Rightarrow> bool \<Rightarrow> bool \<Rightarrow> double \<Rightarrow> double \<Rightarrow> double \<Rightarrow> error + jint"
where
  "calculate_pixel_color pf tabs x y transform maxIterations escapeRadiusSquared
     colorPalette colorOffset smoothColors useLog2Lookup
     logMagnitudeScaleFactor logLogScaleFactor log2_2 =
     (let (c_re, c_im) = pixel_c transform x y;
          (i, z_re, z_im) =
             escape_loop maxIterations escapeRadiusSquared c_re c_im 0 (dlit 0 1) (dlit 0 1)
      in if i = maxIterations then array_get PaletteIndex colorPalette maxIterations
         else if smoothColors then
           (let magSq = dadd (dmul z_re z_re) (dmul z_im z_im)
            in case smooth_nu pf tabs useLog2Lookup magSq
                      logMagnitudeScaleFactor logLogScaleFactor log2_2 of
                 Inl err \<Rightarrow> Inl err
               | Inr nu \<Rightarrow> smooth_color pf colorPalette colorOffset maxIterations i nu)
         else array_get PaletteIndex colorPalette (palette_index i colorOffset maxIterations))"

subsection \<open>mandelbrotRenderBlock\<close>

text \<open>The inner loop over \<open>x\<close> and the outer loop over \<open>y\<close>, from the current counter and
  output buffer. \<open>pixel\<close> is the call of \<^verbatim>\<open>calculate_pixel_color\<close> with the parameters of
  the block; \<open>isPixelSet\<close> is \<open>None\<close> for a null mask.\<close>

function render_columns ::
  "(jint \<Rightarrow> jint \<Rightarrow> error + jint) \<Rightarrow> jint \<Rightarrow> jint \<Rightarrow> jint \<Rightarrow> bool list option \<Rightarrow>
   jint \<Rightarrow> jint \<Rightarrow> jint list \<Rightarrow> error + jint list"
where
  "render_columns pixel currentBlockWidth blockX blockY isPixelSet y x colorArray =
     (if x <s currentBlockWidth then
        (let index = y * currentBlockWidth + x
         in case (case isPixelSet of
                    None \<Rightarrow> Inr False
                  | Some flags \<Rightarrow> array_get MaskIndex flags index) of
              Inl err \<Rightarrow> Inl err
            | Inr True \<Rightarrow>
                render_columns pixel currentBlockWidth blockX blockY isPixelSet y (x + 1)
                  colorArray
            | Inr False \<Rightarrow>
                (case pixel (blockX + x) (blockY + y) of
                   Inl err \<Rightarrow> Inl err
                 | Inr color \<Rightarrow>
                     (case array_set OutputIndex colorArray index color of
                        Inl err \<Rightarrow> Inl err
                      | Inr colorArray' \<Rightarrow>
                          render_columns pixel currentBlockWidth blockX blockY isPixelSet y
                            (x + 1) colorArray')))
      else Inr colorArray)"
  by pat_completeness auto
termination
  by (relation "measure (\<lambda>(pixel, currentBlockWidth, blockX, blockY, isPixelSet, y, x, colorArray).
        nat (sint currentBlockWidth - sint x))")
     (auto simp: sint_succ_less word_sless_alt)

function render_rows ::
  "(jint \<Rightarrow> jint \<Rightarrow> error + jint) \<Rightarrow> jint \<Rightarrow> jint \<Rightarrow> jint \<Rightarrow> jint \<Rightarrow> bool list option \<Rightarrow>
   jint \<Rightarrow> jint list \<Rightarrow> error + jint list"
where
  "render_rows pixel currentBlockHeight currentBlockWidth blockX blockY isPixelSet y colorArray =
     (if y <s currentBlockHeight then
        (case render_columns pixel currentBlockWidth blockX blockY isPixelSet y 0 colorArray of
           Inl err \<Rightarrow> Inl err
         | Inr colorArray' \<Rightarrow>
             render_rows pixel currentBlockHeight currentBlockWidth blockX blockY isPixelSet
               (y + 1) colorArray')
      else Inr colorArray)"
  by pat_completeness auto
termination
  by (relation "measure (\<lambda>(pixel, currentBlockHeight, currentBlockWidth, blockX, blockY,
        isPixelSet, y, colorArray). nat (sint currentBlockHeight - sint y))")
     (auto simp: sint_succ_less word_sless_alt)

declare render_columns.simps [simp del]
declare render_rows.simps [simp del]

definition mandelbrotRenderBlock ::
  "platform \<Rightarrow> LookupTables \<Rightarrow> jint \<Rightarrow> jint \<Rightarrow> jint \<Rightarrow> jint \<Rightarrow>
   double \<Rightarrow> double \<Rightarrow> double \<Rightarrow> double \<Rightarrow> double \<Rightarrow> double \<Rightarrow>
   jint \<Rightarrow> double \<Rightarrow> jint list \<Rightarrow> jint \<Rightarrow> bool \<Rightarrow> bool \<Rightarrow> double \<Rightarrow> double \<Rightarrow> double \<Rightarrow>
   bool list option \<Rightarrow> jint list \<Rightarrow> error + jint list"
where
  "mandelbrotRenderBlock pf tabs currentBlockHeight currentBlockWidth blockX blockY
     zx_x' zx_y' zx_c' zy_x' zy_y' zy_c' maxIterations escapeRadiusSquared colorPalette
     colorOffset smoothColors useLog2Lookup logMagnitudeScaleFactor logLogScaleFactor log2_2
     isPixelSet colorArray =
     (let transform = \<lparr>zx_x = zx_x', zx_y = zx_y', zx_c = zx_c',
                        zy_x = zy_x', zy_y = zy_y', zy_c = zy_c'\<rparr>;
          pixel = (\<lambda>px py.
            calculate_pixel_color pf tabs px py transform maxIterations escapeRadiusSquared
              colorPalette colorOffset smoothColors useLog2Lookup
              logMagnitudeScaleFactor logLogScaleFactor log2_2)
      in render_rows pixel currentBlockHeight currentBlockWidth blockX blockY isPixelSet 0
           colorArray)"

section \<open>The escape-time recurrence\<close>

text \<open>
  The recurrence as the specification words it: \<open>z \<leftarrow> z\<^sup>2 + c\<close> from \<open>z = 0\<close>, expanded to
  \<open>z_re' = z_re\<^sup>2 - z_im\<^sup>2 + c_re\<close> and \<open>z_im' = 2 \<sqdot> z_re \<sqdot> z_im + c_im\<close>, with the escape test
  \<open>|z|\<^sup>2 > escapeRadiusSquared\<close>. \<open>orbit c_re c_im k\<close> is the \<open>k\<close>-th iterate.
\<close>

definition mandel_step :: "double \<Rightarrow> double \<Rightarrow> double \<times> double \<Rightarrow> double \<times> double" where
  "mandel_step c_re c_im z =
     (dadd (dsub (dmul (fst z) (fst z)) (dmul (snd z) (snd z))) c_re,
      dadd (dmul (dmul (dlit 2 1) (fst z)) (snd z)) c_im)"

definition exceeds :: "double \<Rightarrow> double \<times> double \<Rightarrow> bool" where
  "exceeds escapeRadiusSquared z \<longleftrightarrow>
     fp_gt (dadd (dmul (fst z) (fst z)) (dmul (snd z) (snd z))) escapeRadiusSquared"

definition orbit :: "double \<Rightarrow> double \<Rightarrow> nat \<Rightarrow> double \<times> double" where
  "orbit c_re c_im k = (mandel_step c_re c_im ^^ k) (dlit 0 1, dlit 0 1)"

text \<open>A transform that maps every pixel to the same point \<open>c_re + i \<sqdot> c_im\<close>: all linear
  coefficients are zero.\<close>

definition constant_transform :: "double \<Rightarrow> double \<Rightarrow> AffineTransform" where
  "constant_transform c_re c_im =
     \<lparr>zx_x = dlit 0 1, zx_y = dlit 0 1, zx_c = c_re,
      zy_x = dlit 0 1, zy_y = dlit 0 1, zy_c = c_im\<rparr>"

text \<open>Whether the skip mask marks the pixel at a row-major index as already set; a null
  mask marks none.\<close>

definition is_set :: "bool list option \<Rightarrow> nat \<Rightarrow> bool" where
  "is_set isPixelSet k = (case isPixelSet of None \<Rightarrow> False | Some flags \<Rightarrow> flags ! k)"

section \<open>The real value of a floating-point number\<close>

text \<open>The real number that a finite floating-point value stands for; the value chosen
  for NaN and the infinities does not matter.\<close>

definition valof :: "fp \<Rightarrow> real" where
  "valof x =
     (case x of
        Fin s m e \<Rightarrow> (if s then - 1 else 1) * real_of_int m * 2 powi e
      | _ \<Rightarrow> 0)"

text \<open>A finite value with a non-negative significand and the sign bit clear: the values
  from \<open>+0\<close> upwards.\<close>

definition fin_nonneg :: "fp \<Rightarrow> bool" where
  "fin_nonneg x = (case x of Fin s m e \<Rightarrow> \<not> s \<and> 0 \<le> m | _ \<Rightarrow> False)"

text \<open>\<open>rounds_to f r X\<close>: the non-negative value \<open>r\<close> of the format \<open>f\<close> is a correctly rounded
  image of the real number \<open>X\<close>, up to the relative error \<open>2\<^sup>-\<^sup>p\<close> of the precision \<open>p\<close> and
  the absolute error of half a unit of the subnormal range. \<open>good_fmt f B\<close>: values below
  \<open>2\<^sup>B\<close> do not overflow in the format \<open>f\<close>.\<close>

definition rounds_to :: "fmt \<Rightarrow> fp \<Rightarrow> real \<Rightarrow> bool" where
  "rounds_to f r X \<longleftrightarrow>
     (\<exists>q e'. r = Fin False q e' \<and> 0 \<le> q \<and> q < 2 ^ nat (prec f) \<and>
        \<bar>real_of_int q * 2 powi e' - X\<bar>
           \<le> 2 powi (- prec f) * (real_of_int q * 2 powi e') + 2 powi (qmin f - 1))"

definition good_fmt :: "fmt \<Rightarrow> int \<Rightarrow> bool" where
  "good_fmt f B \<longleftrightarrow> 0 < prec f \<and> qmin f \<le> qmax f \<and> B - prec f + 1 \<le> qmax f"

section \<open>Facts about the machine integers\<close>

lemma sint_of_int_jint:
  "- (2 ^ 31) \<le> k \<Longrightarrow> k < 2 ^ 31 \<Longrightarrow> sint (word_of_int k :: jint) = k"
  by (simp add: sint_sbintrunc' signed_take_bit_int_eq_self)

lemma sint_add_jint:
  "- (2 ^ 31) \<le> sint a + sint b \<Longrightarrow> sint a + sint b < 2 ^ 31 \<Longrightarrow>
   sint (a + b :: jint) = sint a + sint b"
  by (simp add: sint_word_ariths word_size signed_take_bit_int_eq_self)

lemma smod_abs_less: "0 < (m :: int) \<Longrightarrow> \<bar>a smod m\<bar> < m"
  by (simp add: signed_modulo_int_def abs_mult abs_sgn_eq)

lemma smod_nonneg: "0 \<le> (a :: int) \<Longrightarrow> 0 < m \<Longrightarrow> a smod m = a mod m"
  by (simp add: signed_modulo_int_def sgn_if)

lemma sint_int_rem:
  assumes "0 < sint m"
  shows "sint (int_rem a m) = sint a smod sint m"
proof -
  have "\<bar>sint a smod sint m\<bar> < sint m"
    using assms by (rule smod_abs_less)
  moreover have "sint m < 2 ^ 31"
    using sint_lt [of m] by simp
  ultimately show ?thesis
    unfolding int_rem_def by (intro sint_of_int_jint) linarith+
qed

lemma palette_index_bounds:
  assumes "0 < sint m" and "sint m \<le> 2 ^ 30"
  shows "0 \<le> sint (palette_index i off m) \<and> sint (palette_index i off m) < sint m"
proof -
  define r where "r = sint (i + off) smod sint m"
  have r: "\<bar>r\<bar> < sint m"
    unfolding r_def using assms(1) by (rule smod_abs_less)
  have inner: "sint (int_rem (i + off) m) = r"
    by (simp add: sint_int_rem assms(1) r_def)
  have "sint (int_rem (i + off) m + m) = r + sint m"
    using r assms by (simp add: sint_add_jint inner)
  then have "sint (palette_index i off m) = (r + sint m) smod sint m"
    by (simp add: palette_index_def sint_int_rem assms(1))
  also have "\<dots> = (r + sint m) mod sint m"
    using r assms(1) by (intro smod_nonneg) linarith+
  finally show ?thesis
    using assms(1) by simp
qed

section \<open>The wrapped palette index\<close>

text \<open>
  C3, as stated: for every \<open>maxIterations \<ge> 1\<close> and all \<open>iterationCount\<close> and \<open>colorOffset\<close>
  the double-modulo index lies in \<open>[0, maxIterations)\<close>. On 32-bit integers this fails
  for \<open>maxIterations = 2\<^sup>3\<^sup>1 - 1\<close>, \<open>iterationCount = 1\<close> and \<open>colorOffset = 0\<close>: the inner
  remainder is 1, adding \<open>maxIterations\<close> wraps around to \<open>-2\<^sup>3\<^sup>1\<close>, and the outer
  remainder is \<open>-1\<close>.
\<close>

theorem palette_index_range_counterexample:
  "\<not> (\<forall>maxIterations iterationCount colorOffset.
        1 \<le> sint maxIterations \<longrightarrow>
        0 \<le> sint (palette_index iterationCount colorOffset maxIterations) \<and>
        sint (palette_index iterationCount colorOffset maxIterations) < sint maxIterations)"
proof
  assume "\<forall>maxIterations iterationCount colorOffset.
        1 \<le> sint maxIterations \<longrightarrow>
        0 \<le> sint (palette_index iterationCount colorOffset maxIterations) \<and>
        sint (palette_index iterationCount colorOffset maxIterations) < sint maxIterations"
  then have "1 \<le> sint (0x7FFFFFFF :: jint) \<longrightarrow>
      0 \<le> sint (palette_index 1 0 (0x7FFFFFFF :: jint))"
    by blast
  moreover have "sint (palette_index 1 0 (0x7FFFFFFF :: jint)) = - 1"
    by (simp add: palette_index_def int_rem_def signed_modulo_int_def)
  ultimately show False
    by simp
qed

text \<open>
  C3, amended: for every \<open>maxIterations\<close> with \<open>1 \<le> maxIterations \<le> 2\<^sup>3\<^sup>0\<close> and all 32-bit
  \<open>iterationCount\<close> and \<open>colorOffset\<close> (positive, negative or zero, also when their sum is
  negative or wraps around) the double-modulo index lies in \<open>[0, maxIterations)\<close>.
\<close>

theorem palette_index_range:
  assumes "1 \<le> sint maxIterations" and "sint maxIterations \<le> 2 ^ 30"
  shows "0 \<le> sint (palette_index iterationCount colorOffset maxIterations) \<and>
         sint (palette_index iterationCount colorOffset maxIterations) < sint maxIterations"
  using assms by (intro palette_index_bounds) simp_all

theorem palette_index_range_witness:
  "1 \<le> sint (3 :: jint) \<and> sint (3 :: jint) \<le> 2 ^ 30 \<and>
   sint (5 + (- 7) :: jint) < 0 \<and>
   0 \<le> sint (palette_index 5 (- 7) 3) \<and> sint (palette_index 5 (- 7) 3) < sint (3 :: jint)"
  using palette_index_range [of 3 5 "- 7"] by simp

section \<open>Facts about the lookup tables\<close>

lemma length_fill_table: "length (fill_table entry i tab) = length tab"
proof (induction entry i tab rule: fill_table.induct)
  case (1 entry i tab)
  then show ?case
    by (subst fill_table.simps) simp
qed

lemma length_initNative:
  "length (logMagnitudeLookupTable (initNative pf tabs)) = length (logMagnitudeLookupTable tabs) \<and>
   length (logLogLookupTable (initNative pf tabs)) = length (logLogLookupTable tabs)"
  by (simp add: initNative_def Let_def length_fill_table)

lemma length_initial_tables:
  "length (logMagnitudeLookupTable initial_tables) = 65536 \<and>
   length (logLogLookupTable initial_tables) = 65536"
  by (simp add: initial_tables_def)

lemma of_nat_nat_sint: "0 \<le> sint (i :: jint) \<Longrightarrow> of_nat (nat (sint i)) = i"
  by (simp add: of_nat_nat)

lemma fill_table_nth:
  "0 \<le> sint i \<Longrightarrow> k < length tab \<Longrightarrow>
   fill_table entry i tab ! k =
     (if nat (sint i) \<le> k \<and> k < 65536 then entry (of_nat k) else tab ! k)"
proof (induction entry i tab rule: fill_table.induct)
  case (1 entry i tab)
  show ?case
  proof (cases "i <s 65536")
    case True
    then have lt: "sint i < 65536" by (simp add: word_sless_alt)
    then have succ: "sint (i + 1) = sint i + 1" by (simp add: sint_succ_jint)
    have step: "fill_table entry i tab = fill_table entry (i + 1) (tab[nat (sint i) := entry i])"
      using True by (subst fill_table.simps) simp
    have ih: "fill_table entry (i + 1) (tab[nat (sint i) := entry i]) ! k =
        (if nat (sint (i + 1)) \<le> k \<and> k < 65536 then entry (of_nat k)
         else tab[nat (sint i) := entry i] ! k)"
      using "1.IH" [OF True] "1.prems" succ by simp
    have nlt: "nat (sint i) < 65536"
      using lt "1.prems"(1) by linarith
    show ?thesis
    proof (cases "k = nat (sint i)")
      case True
      then show ?thesis
        using step ih succ "1.prems" nlt by (simp add: of_nat_nat_sint nat_add_distrib)
    next
      case False
      then show ?thesis
        using step ih succ "1.prems" by (auto simp: nat_add_distrib)
    qed
  next
    case False
    then have "\<not> sint i < 65536" by (simp add: word_sless_alt)
    then show ?thesis
      using False "1.prems" by (subst fill_table.simps) auto
  qed
qed

lemma int_clamp_bounds:
  "0 \<le> sint (int_max 0 (int_min v 65535)) \<and> sint (int_max 0 (int_min v 65535)) \<le> 65535"
  by (simp add: int_max_def int_min_def word_sless_alt)

lemma logMagnitude_index_bounds:
  "0 \<le> sint (logMagnitude_index pf magSq s) \<and> sint (logMagnitude_index pf magSq s) \<le> 65535"
  unfolding logMagnitude_index_def Let_def by (rule int_clamp_bounds)

lemma logLog_index_bounds:
  "0 \<le> sint (logLog_index pf logZn s) \<and> sint (logLog_index pf logZn s) \<le> 65535"
  unfolding logLog_index_def Let_def by (rule int_clamp_bounds)

lemma in_bounds_table:
  "length tab = 65536 \<Longrightarrow> 0 \<le> sint k \<Longrightarrow> sint k \<le> 65535 \<Longrightarrow> in_bounds tab k"
  by (simp add: in_bounds_def)

lemma smooth_nu_lookup_ok:
  assumes "length (logMagnitudeLookupTable tabs) = 65536"
      and "length (logLogLookupTable tabs) = 65536"
  shows "\<exists>nu. smooth_nu pf tabs useLog2Lookup magSq s1 s2 l = Inr nu"
  using assms logMagnitude_index_bounds logLog_index_bounds
  by (simp add: smooth_nu_def Let_def array_get_def in_bounds_table)

section \<open>Clamping of the table indices\<close>

text \<open>
  C5: in smooth colouring with \<^verbatim>\<open>useLog2Lookup\<close>, both table indices lie in \<open>[0, 65535]\<close>
  for every \<open>magSq\<close>, every intermediate \<open>logZn\<close>, every scale factor and every platform,
  whatever the conversion to \<^verbatim>\<open>int\<close> produced; so both reads are inside the tables of
  65536 entries and the lookup yields a value.
\<close>

theorem table_indices_clamped:
  assumes "length (logMagnitudeLookupTable tabs) = 65536"
      and "length (logLogLookupTable tabs) = 65536"
  shows "0 \<le> sint (logMagnitude_index pf magSq logMagnitudeScaleFactor) \<and>
         sint (logMagnitude_index pf magSq logMagnitudeScaleFactor) \<le> 65535 \<and>
         0 \<le> sint (logLog_index pf logZn logLogScaleFactor) \<and>
         sint (logLog_index pf logZn logLogScaleFactor) \<le> 65535 \<and>
         in_bounds (logMagnitudeLookupTable tabs)
           (logMagnitude_index pf magSq logMagnitudeScaleFactor) \<and>
         in_bounds (logLogLookupTable tabs) (logLog_index pf logZn logLogScaleFactor) \<and>
         (\<exists>nu. smooth_nu pf tabs True magSq logMagnitudeScaleFactor logLogScaleFactor log2_2
                 = Inr nu)"
  using assms logMagnitude_index_bounds [of pf magSq logMagnitudeScaleFactor]
    logLog_index_bounds [of pf logZn logLogScaleFactor]
    smooth_nu_lookup_ok [OF assms, of pf True magSq]
  by (simp add: in_bounds_table)

theorem table_indices_clamped_witness:
  "length (logMagnitudeLookupTable (initNative ref_platform initial_tables)) = 65536 \<and>
   length (logLogLookupTable (initNative ref_platform initial_tables)) = 65536 \<and>
   sint (int_of_fp ref_platform (dmul (dsub (dlit 10000 1) (dlit 4 1)) (dlit 65535 32))) = 20471495 \<and>
   sint (logMagnitude_index ref_platform (dlit 10000 1) (dlit 65535 32)) \<le> 65535 \<and>
   sint (int_of_fp ref_platform (dmul (dsub (dlit 1 1) (dlit 4 1)) (dlit 65535 32))) = - 6143 \<and>
   0 \<le> sint (logMagnitude_index ref_platform (dlit 1 1) (dlit 65535 32)) \<and>
   in_bounds (logMagnitudeLookupTable (initNative ref_platform initial_tables))
     (logMagnitude_index ref_platform (dlit 10000 1) (dlit 65535 32)) \<and>
   in_bounds (logLogLookupTable (initNative ref_platform initial_tables))
     (logLog_index ref_platform (Inf False) (dlit 65535000 1585))"
proof -
  have len: "length (logMagnitudeLookupTable (initNative ref_platform initial_tables)) = 65536"
    "length (logLogLookupTable (initNative ref_platform initial_tables)) = 65536"
    by (simp_all add: length_initNative length_initial_tables)
  have above: "sint (int_of_fp ref_platform
      (dmul (dsub (dlit 10000 1) (dlit 4 1)) (dlit 65535 32))) = 20471495"
    by code_simp
  have below: "sint (int_of_fp ref_platform
      (dmul (dsub (dlit 1 1) (dlit 4 1)) (dlit 65535 32))) = - 6143"
    by code_simp
  show ?thesis
    using len above below
      table_indices_clamped [OF len, of ref_platform "dlit 10000 1" "dlit 65535 32"
        "Inf False" "dlit 65535000 1585"]
      table_indices_clamped [OF len, of ref_platform "dlit 1 1" "dlit 65535 32"
        "Inf False" "dlit 65535000 1585"]
    by simp
qed

section \<open>Facts about the escape-time loop\<close>

lemma escape_loop_run:
  assumes "escape_loop M R cr ci i zr zi = (j, wr, wi)" and "sint i \<le> sint M"
  shows "\<exists>d. sint j = sint i + int d \<and> sint j \<le> sint M \<and>
             (wr, wi) = (mandel_step cr ci ^^ d) (zr, zi) \<and>
             (\<forall>k<d. \<not> exceeds R ((mandel_step cr ci ^^ k) (zr, zi))) \<and>
             (sint j < sint M \<longrightarrow> exceeds R (wr, wi))"
  using assms
proof (induction M R cr ci i zr zi rule: escape_loop.induct)
  case (1 M R cr ci i zr zi)
  show ?case
  proof (cases "i <s M")
    case False
    then have "escape_loop M R cr ci i zr zi = (i, zr, zi)"
      by (subst escape_loop.simps) simp
    with "1.prems" have "j = i" "wr = zr" "wi = zi" by simp_all
    moreover have "\<not> sint i < sint M" using False by (simp add: word_sless_alt)
    ultimately show ?thesis
      using "1.prems"(2) by (intro exI [of _ 0]) simp
  next
    case True
    show ?thesis
    proof (cases "exceeds R (zr, zi)")
      case esc: True
      then have "escape_loop M R cr ci i zr zi = (i, zr, zi)"
        using True by (subst escape_loop.simps) (simp add: exceeds_def Let_def)
      with "1.prems" have "j = i" "wr = zr" "wi = zi" by simp_all
      then show ?thesis
        using "1.prems"(2) esc by (intro exI [of _ 0]) simp
    next
      case noesc: False
      define z' where "z' = mandel_step cr ci (zr, zi)"
      have succ: "sint (i + 1) = sint i + 1"
        using True by (rule sint_succ_less)
      have le: "sint (i + 1) \<le> sint M"
        using True succ by (simp add: word_sless_alt)
      have unfold: "escape_loop M R cr ci i zr zi =
          escape_loop M R cr ci (i + 1) (fst z') (snd z')"
        using True noesc
        by (subst escape_loop.simps) (simp add: exceeds_def Let_def z'_def mandel_step_def)
      with "1.prems"(1) have run: "escape_loop M R cr ci (i + 1) (fst z') (snd z') = (j, wr, wi)"
        by simp
      have nesc: "\<not> fp_gt (dadd (dmul zr zr) (dmul zi zi)) R"
        using noesc by (simp add: exceeds_def)
      have z': "z' = (dadd (dsub (dmul zr zr) (dmul zi zi)) cr,
                      dadd (dmul (dmul (dlit 2 1) zr) zi) ci)"
        by (simp add: z'_def mandel_step_def)
      have "\<exists>d. sint j = sint (i + 1) + int d \<and> sint j \<le> sint M \<and>
             (wr, wi) = (mandel_step cr ci ^^ d) z' \<and>
             (\<forall>k<d. \<not> exceeds R ((mandel_step cr ci ^^ k) z')) \<and>
             (sint j < sint M \<longrightarrow> exceeds R (wr, wi))"
        unfolding z'
        by (rule "1.IH" [OF True refl refl nesc refl refl run [unfolded z' fst_conv snd_conv] le])
      then obtain d where d: "sint j = sint (i + 1) + int d" "sint j \<le> sint M"
          "(wr, wi) = (mandel_step cr ci ^^ d) z'"
          "\<forall>k<d. \<not> exceeds R ((mandel_step cr ci ^^ k) z')"
          "sint j < sint M \<longrightarrow> exceeds R (wr, wi)"
        by auto
      have shift: "(mandel_step cr ci ^^ k) z' = (mandel_step cr ci ^^ Suc k) (zr, zi)" for k
        by (simp add: z'_def funpow_swap1)
      have "\<forall>k<Suc d. \<not> exceeds R ((mandel_step cr ci ^^ k) (zr, zi))"
      proof (intro allI impI)
        fix k assume "k < Suc d"
        show "\<not> exceeds R ((mandel_step cr ci ^^ k) (zr, zi))"
        proof (cases k)
          case 0
          then show ?thesis using noesc by simp
        next
          case (Suc k')
          then have "k' < d" using \<open>k < Suc d\<close> by simp
          then show ?thesis using d(4) Suc shift [of k'] by auto
        qed
      qed
      then show ?thesis
        using d succ shift [of d] by (intro exI [of _ "Suc d"]) auto
    qed
  qed
qed

lemma escape_loop_from_zero:
  assumes "escape_loop M R cr ci 0 (dlit 0 1) (dlit 0 1) = (i, zr, zi)" and "0 \<le> sint M"
  shows "0 \<le> sint i \<and> sint i \<le> sint M \<and>
         (zr, zi) = orbit cr ci (nat (sint i)) \<and>
         (\<forall>k<nat (sint i). \<not> exceeds R (orbit cr ci k)) \<and>
         (sint i < sint M \<longrightarrow> exceeds R (orbit cr ci (nat (sint i))))"
proof -
  from escape_loop_run [OF assms(1)] assms(2)
  obtain d where d: "sint i = int d" "sint i \<le> sint M"
      "(zr, zi) = (mandel_step cr ci ^^ d) (dlit 0 1, dlit 0 1)"
      "\<forall>k<d. \<not> exceeds R ((mandel_step cr ci ^^ k) (dlit 0 1, dlit 0 1))"
      "sint i < sint M \<longrightarrow> exceeds R (zr, zi)"
    by auto
  from d(1) have "nat (sint i) = d" by simp
  with d show ?thesis by (simp add: orbit_def)
qed

lemma interior_color:
  assumes "pixel_c transform x y = (c_re, c_im)"
      and "escape_loop maxIterations escapeRadiusSquared c_re c_im 0 (dlit 0 1) (dlit 0 1)
            = (maxIterations, z_re, z_im)"
  shows "calculate_pixel_color pf tabs x y transform maxIterations escapeRadiusSquared
           colorPalette colorOffset smoothColors useLog2Lookup
           logMagnitudeScaleFactor logLogScaleFactor log2_2
         = array_get PaletteIndex colorPalette maxIterations"
  using assms by (simp add: calculate_pixel_color_def)

section \<open>The escape-time loop\<close>

text \<open>
  C1: started at \<open>z = 0\<close>, the loop returns the count \<open>i\<close> and the iterate \<open>orbit c i\<close> of the
  recurrence \<open>z \<leftarrow> z\<^sup>2 + c\<close> after \<open>i \<le> maxIterations\<close> steps. Before each step \<open>k < i\<close> the
  test \<open>|z|\<^sup>2 > escapeRadiusSquared\<close> was made on the iterate \<open>orbit c k\<close> of the previous
  step and failed; when the loop stops before \<open>maxIterations\<close>, the test holds on the
  iterate it returns. A pixel whose iterates never exceed the threshold runs exactly
  \<open>maxIterations\<close> steps and gets the interior colour, the read of
  \<open>palette[maxIterations]\<close>.
\<close>

theorem escape_time_loop:
  assumes "0 \<le> sint maxIterations"
      and "pixel_c transform x y = (c_re, c_im)"
      and "escape_loop maxIterations escapeRadiusSquared c_re c_im 0 (dlit 0 1) (dlit 0 1)
            = (i, z_re, z_im)"
  shows "0 \<le> sint i \<and> sint i \<le> sint maxIterations \<and>
         (z_re, z_im) = orbit c_re c_im (nat (sint i)) \<and>
         (\<forall>k<nat (sint i). \<not> exceeds escapeRadiusSquared (orbit c_re c_im k)) \<and>
         (sint i < sint maxIterations \<longrightarrow>
            exceeds escapeRadiusSquared (orbit c_re c_im (nat (sint i)))) \<and>
         ((\<forall>k<nat (sint maxIterations). \<not> exceeds escapeRadiusSquared (orbit c_re c_im k)) \<longrightarrow>
            i = maxIterations \<and>
            calculate_pixel_color pf tabs x y transform maxIterations escapeRadiusSquared
              colorPalette colorOffset smoothColors useLog2Lookup
              logMagnitudeScaleFactor logLogScaleFactor log2_2
            = array_get PaletteIndex colorPalette maxIterations)"
proof -
  note run = escape_loop_from_zero [OF assms(3) assms(1)]
  have "i = maxIterations \<and>
        calculate_pixel_color pf tabs x y transform maxIterations escapeRadiusSquared
          colorPalette colorOffset smoothColors useLog2Lookup
          logMagnitudeScaleFactor logLogScaleFactor log2_2
        = array_get PaletteIndex colorPalette maxIterations"
    if never: "\<forall>k<nat (sint maxIterations). \<not> exceeds escapeRadiusSquared (orbit c_re c_im k)"
  proof -
    have "\<not> sint i < sint maxIterations"
    proof
      assume lt: "sint i < sint maxIterations"
      with run have "exceeds escapeRadiusSquared (orbit c_re c_im (nat (sint i)))" by simp
      moreover have "nat (sint i) < nat (sint maxIterations)" using lt run by linarith
      ultimately show False using never by blast
    qed
    with run have "sint i = sint maxIterations" by simp
    then have eq: "i = maxIterations" by (rule signed_word_eqI)
    with interior_color [OF assms(2)] assms(3) show ?thesis by simp
  qed
  with run show ?thesis by blast
qed

theorem escape_time_loop_witness:
  "0 \<le> sint (3 :: jint) \<and>
   pixel_c (constant_transform (dlit 0 1) (dlit 0 1)) 0 0 = (dlit 0 1, dlit 0 1) \<and>
   escape_loop 3 (dlit 4 1) (dlit 0 1) (dlit 0 1) 0 (dlit 0 1) (dlit 0 1)
     = (3, dlit 0 1, dlit 0 1) \<and>
   \<not> exceeds (dlit 4 1) (orbit (dlit 0 1) (dlit 0 1) 0) \<and>
   \<not> exceeds (dlit 4 1) (orbit (dlit 0 1) (dlit 0 1) 1) \<and>
   \<not> exceeds (dlit 4 1) (orbit (dlit 0 1) (dlit 0 1) 2) \<and>
   calculate_pixel_color ref_platform initial_tables 0 0 (constant_transform (dlit 0 1) (dlit 0 1)) 3 (dlit 4 1)
     [10, 11, 12, 13] 0 True True (dlit 65535 32) (dlit 65535000 1585) (dlit 1 1) = Inr 13 \<and>
   0 \<le> sint (5 :: jint) \<and>
   pixel_c (constant_transform (dlit 3 1) (dlit 0 1)) 0 0 = (dlit 3 1, dlit 0 1) \<and>
   escape_loop 5 (dlit 4 1) (dlit 3 1) (dlit 0 1) 0 (dlit 0 1) (dlit 0 1)
     = (1, dlit 3 1, dlit 0 1) \<and>
   sint (1 :: jint) < sint (5 :: jint) \<and>
   (dlit 3 1, dlit 0 1) = orbit (dlit 3 1) (dlit 0 1) (nat (sint (1 :: jint))) \<and>
   exceeds (dlit 4 1) (orbit (dlit 3 1) (dlit 0 1) (nat (sint (1 :: jint))))"
proof -
  have h': "0 \<le> sint (5 :: jint)" by simp
  have c': "pixel_c (constant_transform (dlit 3 1) (dlit 0 1)) 0 0 = (dlit 3 1, dlit 0 1)"
    by code_simp
  have run': "escape_loop 5 (dlit 4 1) (dlit 3 1) (dlit 0 1) 0 (dlit 0 1) (dlit 0 1)
      = (1, dlit 3 1, dlit 0 1)" by code_simp
  have lt: "sint (1 :: jint) < sint (5 :: jint)" by simp
  note escaped = escape_time_loop [OF h' c' run', of ref_platform initial_tables "[]"
      0 True True "dlit 65535 32" "dlit 65535000 1585" "dlit 1 1"]
  have h: "0 \<le> sint (3 :: jint)" by simp
  have c: "pixel_c (constant_transform (dlit 0 1) (dlit 0 1)) 0 0 = (dlit 0 1, dlit 0 1)" by code_simp
  have run: "escape_loop 3 (dlit 4 1) (dlit 0 1) (dlit 0 1) 0 (dlit 0 1) (dlit 0 1)
      = (3, dlit 0 1, dlit 0 1)" by code_simp
  have o: "\<not> exceeds (dlit 4 1) (orbit (dlit 0 1) (dlit 0 1) 0)"
    "\<not> exceeds (dlit 4 1) (orbit (dlit 0 1) (dlit 0 1) 1)"
    "\<not> exceeds (dlit 4 1) (orbit (dlit 0 1) (dlit 0 1) 2)"
    by code_simp+
  have never: "\<forall>k<nat (sint (3 :: jint)). \<not> exceeds (dlit 4 1) (orbit (dlit 0 1) (dlit 0 1) k)"
    using o by (auto simp: less_Suc_eq numeral_3_eq_3 numeral_2_eq_2)
  have "array_get PaletteIndex [10, 11, 12, 13 :: jint] 3 = Inr 13"
    by (simp add: array_get_def in_bounds_def)
  with escape_time_loop [OF h c run, of ref_platform initial_tables "[10, 11, 12, 13]"
      0 True True "dlit 65535 32" "dlit 65535000 1585" "dlit 1 1"] never
  have "calculate_pixel_color ref_platform initial_tables 0 0 (constant_transform (dlit 0 1) (dlit 0 1)) 3 (dlit 4 1)
     [10, 11, 12, 13] 0 True True (dlit 65535 32) (dlit 65535000 1585) (dlit 1 1) = Inr 13"
    by simp
  with h c run o h' c' run' lt escaped show ?thesis by simp
qed

section \<open>Facts about the orbit of zero\<close>

lemma zero_step:
  "mandel_step (dlit 0 1) (dlit 0 1) (dlit 0 1, dlit 0 1) = (dlit 0 1, dlit 0 1)"
  by code_simp

lemma orbit_zero: "orbit (dlit 0 1) (dlit 0 1) k = (dlit 0 1, dlit 0 1)"
  by (induction k) (simp_all add: orbit_def zero_step)

lemma dlit_zero: "dlit 0 1 = Fin False 0 (- 1074)"
  by code_simp

lemma zero_magnitude: "dadd (dmul (dlit 0 1) (dlit 0 1)) (dmul (dlit 0 1) (dlit 0 1)) = dlit 0 1"
  by code_simp

lemma fp_lt_zero_asym: "fp_lt (dlit 0 1) r \<Longrightarrow> \<not> fp_lt r (dlit 0 1)"
  unfolding dlit_zero
  by (cases r)
     (auto simp: fp_lt_def signed_mant_def Let_def mult_less_0_iff zero_less_mult_iff
           split: if_splits)

lemma zero_never_exceeds:
  "fp_lt (dlit 0 1) escapeRadiusSquared \<Longrightarrow>
   \<not> exceeds escapeRadiusSquared (orbit (dlit 0 1) (dlit 0 1) k)"
  by (simp add: orbit_zero exceeds_def zero_magnitude fp_gt_def fp_lt_zero_asym)

section \<open>The colour of interior pixels\<close>

text \<open>
  C2: a pixel whose iteration count equals \<open>maxIterations\<close> gets the read of
  \<open>palette[maxIterations]\<close>, whatever \<open>smoothColors\<close>, \<open>useLog2Lookup\<close> and \<open>colorOffset\<close> are.
  In particular, with \<open>maxIterations = 50\<close>, a positive escape radius and a pixel that the
  transform maps to \<open>c = 0 + 0i\<close>, the iteration count is 50 and the colour is
  \<open>palette[50]\<close>, the last entry of a palette of 51 colours.
\<close>

theorem interior_pixel_color:
  "(pixel_c transform x y = (c_re, c_im) \<and>
    escape_loop maxIterations escapeRadiusSquared c_re c_im 0 (dlit 0 1) (dlit 0 1)
      = (maxIterations, z_re, z_im) \<longrightarrow>
    calculate_pixel_color pf tabs x y transform maxIterations escapeRadiusSquared
      colorPalette colorOffset smoothColors useLog2Lookup
      logMagnitudeScaleFactor logLogScaleFactor log2_2
    = array_get PaletteIndex colorPalette maxIterations) \<and>
   (pixel_c transform x y = (dlit 0 1, dlit 0 1) \<and> fp_lt (dlit 0 1) escapeRadiusSquared \<and>
    length colorPalette = 51 \<longrightarrow>
    fst (escape_loop 50 escapeRadiusSquared (dlit 0 1) (dlit 0 1) 0 (dlit 0 1) (dlit 0 1)) = 50 \<and>
    calculate_pixel_color pf tabs x y transform 50 escapeRadiusSquared
      colorPalette colorOffset smoothColors useLog2Lookup
      logMagnitudeScaleFactor logLogScaleFactor log2_2
    = Inr (colorPalette ! 50))"
proof (intro conjI impI)
  assume "pixel_c transform x y = (c_re, c_im) \<and>
    escape_loop maxIterations escapeRadiusSquared c_re c_im 0 (dlit 0 1) (dlit 0 1)
      = (maxIterations, z_re, z_im)"
  then show "calculate_pixel_color pf tabs x y transform maxIterations escapeRadiusSquared
      colorPalette colorOffset smoothColors useLog2Lookup
      logMagnitudeScaleFactor logLogScaleFactor log2_2
    = array_get PaletteIndex colorPalette maxIterations"
    by (simp add: interior_color)
next
  assume a: "pixel_c transform x y = (dlit 0 1, dlit 0 1) \<and>
    fp_lt (dlit 0 1) escapeRadiusSquared \<and> length colorPalette = 51"
  obtain i z_re z_im where
    run: "escape_loop 50 escapeRadiusSquared (dlit 0 1) (dlit 0 1) 0 (dlit 0 1) (dlit 0 1)
           = (i, z_re, z_im)"
    using prod_cases3 by blast
  have "0 \<le> sint (50 :: jint)" by simp
  note facts = escape_loop_from_zero [OF run this]
  have "\<not> sint i < sint (50 :: jint)"
    using facts zero_never_exceeds a by blast
  with facts have "sint i = sint (50 :: jint)" by simp
  then have i: "i = 50" by (rule signed_word_eqI)
  show "fst (escape_loop 50 escapeRadiusSquared (dlit 0 1) (dlit 0 1) 0 (dlit 0 1) (dlit 0 1))
      = 50"
    using run i by simp
  have "array_get PaletteIndex colorPalette 50 = Inr (colorPalette ! 50)"
    using a by (simp add: array_get_def in_bounds_def)
  then show "calculate_pixel_color pf tabs x y transform 50 escapeRadiusSquared
      colorPalette colorOffset smoothColors useLog2Lookup
      logMagnitudeScaleFactor logLogScaleFactor log2_2
    = Inr (colorPalette ! 50)"
    using interior_color [of transform x y "dlit 0 1" "dlit 0 1" 50 escapeRadiusSquared z_re z_im]
      a run i by simp
qed

theorem interior_pixel_color_witness:
  "pixel_c (constant_transform (dlit 0 1) (dlit 0 1)) 7 9 = (dlit 0 1, dlit 0 1) \<and>
   escape_loop 3 (dlit 4 1) (dlit 0 1) (dlit 0 1) 0 (dlit 0 1) (dlit 0 1)
     = (3, dlit 0 1, dlit 0 1) \<and>
   calculate_pixel_color ref_platform initial_tables 7 9
     (constant_transform (dlit 0 1) (dlit 0 1)) 3 (dlit 4 1) [10, 11, 12, 13] 5 True False
     (dlit 65535 32) (dlit 65535000 1585) (dlit 1 1) = Inr 13 \<and>
   fp_lt (dlit 0 1) (dlit 4 1) \<and>
   length (replicate 50 (0xFF000000 :: jint) @ [0xFF112233]) = 51 \<and>
   fst (escape_loop 50 (dlit 4 1) (dlit 0 1) (dlit 0 1) 0 (dlit 0 1) (dlit 0 1)) = 50 \<and>
   calculate_pixel_color ref_platform initial_tables 7 9
     (constant_transform (dlit 0 1) (dlit 0 1)) 50 (dlit 4 1)
     (replicate 50 0xFF000000 @ [0xFF112233]) (- 3) True True
     (dlit 65535 32) (dlit 65535000 1585) (dlit 1 1) = Inr 0xFF112233"
proof -
  have c: "pixel_c (constant_transform (dlit 0 1) (dlit 0 1)) 7 9 = (dlit 0 1, dlit 0 1)"
    by code_simp
  have run: "escape_loop 3 (dlit 4 1) (dlit 0 1) (dlit 0 1) 0 (dlit 0 1) (dlit 0 1)
      = (3, dlit 0 1, dlit 0 1)"
    by code_simp
  have r: "fp_lt (dlit 0 1) (dlit 4 1)"
    by code_simp
  have len: "length (replicate 50 (0xFF000000 :: jint) @ [0xFF112233]) = 51"
    by simp
  have last: "(replicate 50 (0xFF000000 :: jint) @ [0xFF112233]) ! 50 = 0xFF112233"
    by (simp add: nth_append)
  have get: "array_get PaletteIndex [10, 11, 12, 13 :: jint] 3 = Inr 13"
    by (simp add: array_get_def in_bounds_def)
  note general = interior_pixel_color [of "constant_transform (dlit 0 1) (dlit 0 1)" 7 9
      "dlit 0 1" "dlit 0 1" 3 "dlit 4 1" "dlit 0 1" "dlit 0 1" ref_platform initial_tables
      "[10, 11, 12, 13]" 5 True False "dlit 65535 32" "dlit 65535000 1585" "dlit 1 1"]
  note scenario = interior_pixel_color [of "constant_transform (dlit 0 1) (dlit 0 1)" 7 9
      "dlit 0 1" "dlit 0 1" 50 "dlit 4 1" "dlit 0 1" "dlit 0 1" ref_platform initial_tables
      "replicate 50 0xFF000000 @ [0xFF112233]" "- 3" True True
      "dlit 65535 32" "dlit 65535000 1585" "dlit 1 1"]
  from general c run get have one:
    "calculate_pixel_color ref_platform initial_tables 7 9
       (constant_transform (dlit 0 1) (dlit 0 1)) 3 (dlit 4 1) [10, 11, 12, 13] 5 True False
       (dlit 65535 32) (dlit 65535000 1585) (dlit 1 1) = Inr 13"
    by simp
  from scenario c r len last have two:
    "fst (escape_loop 50 (dlit 4 1) (dlit 0 1) (dlit 0 1) 0 (dlit 0 1) (dlit 0 1)) = 50 \<and>
     calculate_pixel_color ref_platform initial_tables 7 9
       (constant_transform (dlit 0 1) (dlit 0 1)) 50 (dlit 4 1)
       (replicate 50 0xFF000000 @ [0xFF112233]) (- 3) True True
       (dlit 65535 32) (dlit 65535000 1585) (dlit 1 1) = Inr 0xFF112233"
    by simp
  from c run r len one two show ?thesis
    by blast
qed

section \<open>Facts about the orbit of \<open>c = 2\<close>\<close>

lemma discrete_color:
  assumes "pixel_c transform x y = (c_re, c_im)"
      and "escape_loop maxIterations escapeRadiusSquared c_re c_im 0 (dlit 0 1) (dlit 0 1)
            = (i, z_re, z_im)"
      and "i \<noteq> maxIterations"
  shows "calculate_pixel_color pf tabs x y transform maxIterations escapeRadiusSquared
           colorPalette colorOffset False useLog2Lookup
           logMagnitudeScaleFactor logLogScaleFactor log2_2
         = array_get PaletteIndex colorPalette (palette_index i colorOffset maxIterations)"
  using assms by (simp add: calculate_pixel_color_def)

lemma orbit_two:
  "orbit (dlit 2 1) (dlit 0 1) 0 = (dlit 0 1, dlit 0 1) \<and>
   orbit (dlit 2 1) (dlit 0 1) 1 = (dlit 2 1, dlit 0 1) \<and>
   orbit (dlit 2 1) (dlit 0 1) 2 = (dlit 6 1, dlit 0 1)"
  by code_simp

lemma orbit_two_exceeds:
  "\<not> exceeds (dlit 4 1) (orbit (dlit 2 1) (dlit 0 1) 0) \<and>
   \<not> exceeds (dlit 4 1) (orbit (dlit 2 1) (dlit 0 1) 1) \<and>
   exceeds (dlit 4 1) (orbit (dlit 2 1) (dlit 0 1) 2)"
  by code_simp

lemma escape_count_two:
  assumes "3 \<le> sint maxIterations"
  shows "escape_loop maxIterations (dlit 4 1) (dlit 2 1) (dlit 0 1) 0 (dlit 0 1) (dlit 0 1)
         = (2, dlit 6 1, dlit 0 1)"
proof -
  obtain i z_re z_im where
    run: "escape_loop maxIterations (dlit 4 1) (dlit 2 1) (dlit 0 1) 0 (dlit 0 1) (dlit 0 1)
           = (i, z_re, z_im)"
    using prod_cases3 by blast
  have "0 \<le> sint maxIterations" using assms by simp
  note facts = escape_loop_from_zero [OF run this]
  have "\<not> nat (sint i) < 2"
  proof
    assume lt: "nat (sint i) < 2"
    then have "sint i < sint maxIterations" using assms by linarith
    with facts have "exceeds (dlit 4 1) (orbit (dlit 2 1) (dlit 0 1) (nat (sint i)))" by simp
    moreover from lt have "nat (sint i) = 0 \<or> nat (sint i) = 1" by linarith
    ultimately show False using orbit_two_exceeds by auto
  qed
  moreover have "\<not> 2 < nat (sint i)"
    using facts orbit_two_exceeds by blast
  ultimately have n: "nat (sint i) = 2" by linarith
  with facts have "sint i = sint (2 :: jint)" by simp
  then have "i = 2" by (rule signed_word_eqI)
  moreover from facts n have "(z_re, z_im) = (dlit 6 1, dlit 0 1)" by (simp add: orbit_two)
  ultimately show ?thesis using run by simp
qed

lemma palette_index_two:
  assumes "3 \<le> sint m" and "sint m \<le> 2147483645"
  shows "palette_index 2 0 m = 2"
proof -
  have pos: "0 < sint m" using assms by simp
  have inner: "sint (int_rem (2 + 0) m) = 2"
    using assms by (simp add: sint_int_rem pos smod_nonneg)
  have "sint (int_rem (2 + 0) m + m) = 2 + sint m"
    using assms by (simp add: sint_add_jint inner del: add_0_right)
  then have "sint (palette_index 2 0 m) = (2 + sint m) smod sint m"
    by (simp add: palette_index_def sint_int_rem pos del: add_0_right)
  also have "\<dots> = (2 + sint m) mod sint m"
    using assms by (intro smod_nonneg) simp_all
  also have "\<dots> = 2" using assms by simp
  finally have "sint (palette_index 2 0 m) = sint (2 :: jint)" by simp
  then show ?thesis by (rule signed_word_eqI)
qed

section \<open>The pixel \<open>c = 2 + 0i\<close>\<close>

text \<open>
  C7, as stated: with \<open>escapeRadiusSquared = 4.0\<close> the pixel \<open>c = 2 + 0i\<close> escapes on
  iteration 1 and its discrete colour with \<open>colorOffset = 0\<close> is
  \<open>palette[1 mod maxIterations]\<close>. With \<open>maxIterations = 50\<close> and the palette
  \<open>palette[k] = k\<close> the loop returns the count 2 and the colour is \<open>palette[2]\<close>: after
  one step \<open>|z|\<^sup>2 = 4\<close>, which is not greater than \<open>4.0\<close>, so a second step is taken.
\<close>

theorem escape_at_two_counterexample:
  "escape_loop 50 (dlit 4 1) (dlit 2 1) (dlit 0 1) 0 (dlit 0 1) (dlit 0 1)
     = (2, dlit 6 1, dlit 0 1) \<and>
   calculate_pixel_color ref_platform initial_tables 0 0
     (constant_transform (dlit 2 1) (dlit 0 1)) 50 (dlit 4 1)
     (map word_of_nat [0..<51]) 0 False False (dlit 65535 32) (dlit 65535000 1585) (dlit 1 1)
     = Inr 2 \<and>
   array_get PaletteIndex (map word_of_nat [0..<51] :: jint list) (int_rem 1 50) = Inr 1 \<and>
   \<not> (fst (escape_loop 50 (dlit 4 1) (dlit 2 1) (dlit 0 1) 0 (dlit 0 1) (dlit 0 1)) = 1 \<and>
      calculate_pixel_color ref_platform initial_tables 0 0
        (constant_transform (dlit 2 1) (dlit 0 1)) 50 (dlit 4 1)
        (map word_of_nat [0..<51]) 0 False False (dlit 65535 32) (dlit 65535000 1585) (dlit 1 1)
      = array_get PaletteIndex (map word_of_nat [0..<51]) (int_rem 1 50))"
proof -
  have run: "escape_loop 50 (dlit 4 1) (dlit 2 1) (dlit 0 1) 0 (dlit 0 1) (dlit 0 1)
      = (2, dlit 6 1, dlit 0 1)"
    by code_simp
  have c: "pixel_c (constant_transform (dlit 2 1) (dlit 0 1)) 0 0 = (dlit 2 1, dlit 0 1)"
    by code_simp
  have idx: "palette_index 2 0 50 = 2"
    by (rule palette_index_two) simp_all
  have get2: "array_get PaletteIndex (map word_of_nat [0..<51] :: jint list) 2 = Inr 2"
    by (simp add: array_get_def in_bounds_def)
  have rem: "int_rem 1 50 = 1"
    by (simp add: int_rem_def signed_modulo_int_def)
  have get1: "array_get PaletteIndex (map word_of_nat [0..<51] :: jint list) (int_rem 1 50)
      = Inr 1"
    unfolding rem by (simp add: array_get_def in_bounds_def)
  have color: "calculate_pixel_color ref_platform initial_tables 0 0
     (constant_transform (dlit 2 1) (dlit 0 1)) 50 (dlit 4 1)
     (map word_of_nat [0..<51]) 0 False False (dlit 65535 32) (dlit 65535000 1585) (dlit 1 1)
     = Inr 2"
    using discrete_color [OF c run, of ref_platform initial_tables "map word_of_nat [0..<51]" 0]
      idx get2 by simp
  show ?thesis
    using run color get1 by simp
qed

text \<open>
  C7, amended: with \<open>escapeRadiusSquared = 4.0\<close> and \<open>3 \<le> maxIterations \<le> 2\<^sup>3\<^sup>1 - 3\<close>, a pixel
  that the transform maps to \<open>c = 2 + 0i\<close> escapes with iteration count 2: the test on
  the first iterate \<open>2 + 0i\<close> (\<open>|z|\<^sup>2 = 4\<close>) fails, the test on the second iterate \<open>6 + 0i\<close>
  succeeds. Its discrete colour with \<open>colorOffset = 0\<close> is the read of \<open>palette[2]\<close>.
\<close>

theorem escape_at_two:
  assumes "pixel_c transform x y = (dlit 2 1, dlit 0 1)"
      and "3 \<le> sint maxIterations" and "sint maxIterations \<le> 2147483645"
  shows "escape_loop maxIterations (dlit 4 1) (dlit 2 1) (dlit 0 1) 0 (dlit 0 1) (dlit 0 1)
           = (2, dlit 6 1, dlit 0 1) \<and>
         orbit (dlit 2 1) (dlit 0 1) 1 = (dlit 2 1, dlit 0 1) \<and>
         \<not> exceeds (dlit 4 1) (orbit (dlit 2 1) (dlit 0 1) 1) \<and>
         exceeds (dlit 4 1) (orbit (dlit 2 1) (dlit 0 1) 2) \<and>
         calculate_pixel_color pf tabs x y transform maxIterations (dlit 4 1)
           colorPalette 0 False useLog2Lookup logMagnitudeScaleFactor logLogScaleFactor log2_2
         = array_get PaletteIndex colorPalette 2"
proof -
  note run = escape_count_two [OF assms(2)]
  have "(2 :: jint) \<noteq> maxIterations"
    using assms(2) by auto
  from discrete_color [OF assms(1) run this] palette_index_two [OF assms(2,3)]
  have "calculate_pixel_color pf tabs x y transform maxIterations (dlit 4 1)
           colorPalette 0 False useLog2Lookup logMagnitudeScaleFactor logLogScaleFactor log2_2
         = array_get PaletteIndex colorPalette 2"
    by simp
  with run orbit_two orbit_two_exceeds show ?thesis by simp
qed

theorem escape_at_two_witness:
  "pixel_c (constant_transform (dlit 2 1) (dlit 0 1)) 0 0 = (dlit 2 1, dlit 0 1) \<and>
   3 \<le> sint (50 :: jint) \<and> sint (50 :: jint) \<le> 2147483645 \<and>
   escape_loop 50 (dlit 4 1) (dlit 2 1) (dlit 0 1) 0 (dlit 0 1) (dlit 0 1)
     = (2, dlit 6 1, dlit 0 1) \<and>
   calculate_pixel_color ref_platform initial_tables 0 0
     (constant_transform (dlit 2 1) (dlit 0 1)) 50 (dlit 4 1)
     (map word_of_nat [0..<51]) 0 False True (dlit 65535 32) (dlit 65535000 1585) (dlit 1 1)
     = Inr 2"
proof -
  have c: "pixel_c (constant_transform (dlit 2 1) (dlit 0 1)) 0 0 = (dlit 2 1, dlit 0 1)"
    by code_simp
  have m: "3 \<le> sint (50 :: jint)" "sint (50 :: jint) \<le> 2147483645"
    by simp_all
  have get2: "array_get PaletteIndex (map word_of_nat [0..<51] :: jint list) 2 = Inr 2"
    by (simp add: array_get_def in_bounds_def)
  from escape_at_two [OF c m, of ref_platform initial_tables "map word_of_nat [0..<51]" True
      "dlit 65535 32" "dlit 65535000 1585" "dlit 1 1"] get2 c m
  show ?thesis by simp
qed

section \<open>Facts about initNative\<close>

lemma sint_of_nat_jint: "k < 2147483648 \<Longrightarrow> sint (of_nat k :: jint) = int k"
proof -
  assume "k < 2147483648"
  then have "sint (word_of_int (int k) :: jint) = int k"
    by (intro sint_of_int_jint) simp_all
  then show ?thesis by simp
qed

lemma double_of_jint_of_nat:
  "k < 65536 \<Longrightarrow> double_of_jint (of_nat k) = fp_of_int binary64 (int k)"
  by (simp add: double_of_jint_def sint_of_nat_jint)

lemma initNative_nth:
  assumes "length (logMagnitudeLookupTable tabs) = 65536"
      and "length (logLogLookupTable tabs) = 65536"
      and "k < 65536"
  shows "logMagnitudeLookupTable (initNative pf tabs) ! k = logMagnitude_entry pf (of_nat k)"
    and "logLogLookupTable (initNative pf tabs) ! k = logLog_entry pf (of_nat k)"
  using assms by (simp_all add: initNative_def Let_def fill_table_nth)

lemma magnitude_input_ends:
  "dadd (dlit 4 1) (dmul (ddiv (fp_of_int binary64 0) (dlit 65535 1)) (dlit 32 1)) = dlit 4 1 \<and>
   dadd (dlit 4 1) (dmul (ddiv (fp_of_int binary64 65535) (dlit 65535 1)) (dlit 32 1)) = dlit 36 1"
  by code_simp

lemma ref_log2_values:
  "ref_log2 (dlit 4 1) = dlit 2 1 \<and>
   ref_log2 (dlit 36 1) = Fin False 5820818077507252 (- 50) \<and>
   ref_log2 (dlit 1 1) = dlit 0 1"
  by code_simp

lemma loglog_input_first:
  "dadd (dlit 1 1) (dmul (ddiv (fp_of_int binary64 (int 0)) (dlit 65535 1)) (dlit 1585 1000))
   = dlit 1 1"
  by code_simp

section \<open>The contents of the lookup tables\<close>

text \<open>
  C4: after \<^verbatim>\<open>initNative\<close>, for every index \<open>i\<close> in \<open>[0, 65535]\<close>,
  \<open>logMagnitudeLookupTable[i]\<close> is \<^verbatim>\<open>log2(4.0 + (i / 65535.0) * 32.0)\<close> and
  \<open>logLogLookupTable[i]\<close> is \<^verbatim>\<open>log2(1.0 + (i / 65535.0) * 1.585)\<close>, in the arithmetic of
  \<^verbatim>\<open>double\<close> and with the \<^verbatim>\<open>log2\<close> of the platform; the argument of the first entry is
  exactly \<open>4.0\<close> and that of the last entry exactly \<open>36.0\<close>.
\<close>

theorem lookup_tables_after_init:
  assumes "length (logMagnitudeLookupTable tabs) = 65536"
      and "length (logLogLookupTable tabs) = 65536"
  shows "(\<forall>i<65536. logMagnitudeLookupTable (initNative pf tabs) ! i =
            libm_log2 pf (dadd (dlit 4 1)
              (dmul (ddiv (fp_of_int binary64 (int i)) (dlit 65535 1)) (dlit 32 1)))) \<and>
         (\<forall>i<65536. logLogLookupTable (initNative pf tabs) ! i =
            libm_log2 pf (dadd (dlit 1 1)
              (dmul (ddiv (fp_of_int binary64 (int i)) (dlit 65535 1)) (dlit 1585 1000)))) \<and>
         logMagnitudeLookupTable (initNative pf tabs) ! 0 = libm_log2 pf (dlit 4 1) \<and>
         logMagnitudeLookupTable (initNative pf tabs) ! 65535 = libm_log2 pf (dlit 36 1) \<and>
         length (logMagnitudeLookupTable (initNative pf tabs)) = 65536 \<and>
         length (logLogLookupTable (initNative pf tabs)) = 65536"
proof -
  have mag: "logMagnitudeLookupTable (initNative pf tabs) ! i =
      libm_log2 pf (dadd (dlit 4 1)
        (dmul (ddiv (fp_of_int binary64 (int i)) (dlit 65535 1)) (dlit 32 1)))"
    if "i < 65536" for i
    using initNative_nth(1) [OF assms that] that
    by (simp add: logMagnitude_entry_def Let_def double_of_jint_of_nat)
  have loglog: "logLogLookupTable (initNative pf tabs) ! i =
      libm_log2 pf (dadd (dlit 1 1)
        (dmul (ddiv (fp_of_int binary64 (int i)) (dlit 65535 1)) (dlit 1585 1000)))"
    if "i < 65536" for i
    using initNative_nth(2) [OF assms that] that
    by (simp add: logLog_entry_def Let_def double_of_jint_of_nat)
  have first: "logMagnitudeLookupTable (initNative pf tabs) ! 0 = libm_log2 pf (dlit 4 1)"
    using mag [of 0] magnitude_input_ends by simp
  have last: "logMagnitudeLookupTable (initNative pf tabs) ! 65535 = libm_log2 pf (dlit 36 1)"
    using mag [of 65535] magnitude_input_ends by simp
  show ?thesis
    using mag loglog first last length_initNative [of pf tabs] assms by simp
qed

theorem lookup_tables_after_init_witness:
  "length (logMagnitudeLookupTable initial_tables) = 65536 \<and>
   length (logLogLookupTable initial_tables) = 65536 \<and>
   (0 :: nat) < 65536 \<and> (65535 :: nat) < 65536 \<and>
   logMagnitudeLookupTable (initNative ref_platform initial_tables) ! 0 = dlit 2 1 \<and>
   logMagnitudeLookupTable (initNative ref_platform initial_tables) ! 65535
     = Fin False 5820818077507252 (- 50) \<and>
   logLogLookupTable (initNative ref_platform initial_tables) ! 0 = dlit 0 1"
proof -
  have len: "length (logMagnitudeLookupTable initial_tables) = 65536"
    "length (logLogLookupTable initial_tables) = 65536"
    by (simp_all add: length_initial_tables)
  note tables = lookup_tables_after_init [OF len, of ref_platform]
  have lg: "libm_log2 ref_platform = ref_log2"
    by (simp add: ref_platform_def)
  have "logLogLookupTable (initNative ref_platform initial_tables) ! 0 = dlit 0 1"
    using tables loglog_input_first ref_log2_values unfolding lg
    by (metis zero_less_numeral)
  moreover have "logMagnitudeLookupTable (initNative ref_platform initial_tables) ! 0 = dlit 2 1"
    "logMagnitudeLookupTable (initNative ref_platform initial_tables) ! 65535
      = Fin False 5820818077507252 (- 50)"
    using tables ref_log2_values unfolding lg by simp_all
  ultimately show ?thesis
    using len by simp
qed

section \<open>Facts about the block renderer\<close>

lemma sint_mult_jint:
  "- (2 ^ 31) \<le> sint a * sint b \<Longrightarrow> sint a * sint b < 2 ^ 31 \<Longrightarrow>
   sint (a * b :: jint) = sint a * sint b"
  by (simp add: sint_word_ariths word_size signed_take_bit_int_eq_self)

lemma row_major_bounds:
  assumes "0 \<le> (y :: int)" "y < h" "0 \<le> x" "x < w"
  shows "0 \<le> y * w" "y * w + x < h * w" "0 \<le> y * w + x"
proof -
  show "0 \<le> y * w" using assms by simp
  then show "0 \<le> y * w + x" using assms by simp
  have "y * w + x < y * w + w" using assms by simp
  also have "\<dots> = (y + 1) * w" by (simp add: algebra_simps)
  also have "\<dots> \<le> h * w" using assms by (intro mult_right_mono) simp_all
  finally show "y * w + x < h * w" .
qed

lemma sint_row_major:
  assumes "0 \<le> sint (y :: jint)" "sint y < sint (h :: jint)"
      and "0 \<le> sint (x :: jint)" "sint x < sint (w :: jint)"
      and "sint h * sint w < 2 ^ 31"
  shows "sint (y * w + x) = sint y * sint w + sint x"
proof -
  note b = row_major_bounds [OF assms(1-4)]
  have "sint y * sint w \<le> sint y * sint w + sint x" using assms by simp
  then have hi: "sint y * sint w < 2 ^ 31" using b assms(5) by linarith
  have lo: "- (2 ^ 31) \<le> sint y * sint w"
    using b(1) by (rule order_trans [rotated]) simp
  have "sint (y * w) = sint y * sint w"
    using lo hi by (rule sint_mult_jint)
  then show ?thesis
    using b assms(5) by (simp add: sint_add_jint)
qed

lemma render_columns_result:
  assumes "render_columns pixel w bx by isPixelSet y x0 arr = Inr out"
      and "0 \<le> sint x0" and "0 \<le> sint y" and "sint y < sint (h :: jint)"
      and "sint h * sint w < 2 ^ 31"
  shows "length out = length arr \<and>
         (\<forall>k. k < nat (sint y * sint w + sint x0) \<or> nat (sint y * sint w + sint w) \<le> k \<longrightarrow>
              out ! k = arr ! k) \<and>
         (\<forall>x. sint x0 \<le> sint x \<and> sint x < sint w \<longrightarrow>
              (is_set isPixelSet (nat (sint y * sint w + sint x)) \<longrightarrow>
                 out ! nat (sint y * sint w + sint x) = arr ! nat (sint y * sint w + sint x)) \<and>
              (\<not> is_set isPixelSet (nat (sint y * sint w + sint x)) \<longrightarrow>
                 pixel (bx + x) (by + y) = Inr (out ! nat (sint y * sint w + sint x))))"
  using assms
proof (induction pixel w bx "by" isPixelSet y x0 arr rule: render_columns.induct)
  case (1 pixel w bx "by" isPixelSet y x0 arr)
  show ?case
  proof (cases "x0 <s w")
    case False
    then have "render_columns pixel w bx by isPixelSet y x0 arr = Inr arr"
      by (subst render_columns.simps) simp
    with "1.prems"(1) have "out = arr" by simp
    moreover have "\<not> sint x0 < sint w" using False by (simp add: word_sless_alt)
    ultimately show ?thesis by auto
  next
    case True
    then have lt: "sint x0 < sint w" by (simp add: word_sless_alt)
    have succ: "sint (x0 + 1) = sint x0 + 1" using True by (rule sint_succ_less)
    have idx: "sint (y * w + x0) = sint y * sint w + sint x0"
      using "1.prems" lt by (intro sint_row_major [where h = h]) simp_all
    have nn: "0 \<le> sint (x0 + 1)" using succ "1.prems"(2) by simp
    define k0 where "k0 = nat (sint y * sint w + sint x0)"
    have k0_nonneg: "0 \<le> sint y * sint w + sint x0"
      using row_major_bounds(3) [OF "1.prems"(3,4,2) lt] .
    have nat_idx: "nat (sint (y * w + x0)) = k0" by (simp add: idx k0_def)
    have next_start: "nat (sint y * sint w + sint (x0 + 1)) = Suc k0"
      using k0_nonneg by (simp add: succ k0_def nat_add_distrib)
    have row_end: "Suc k0 \<le> nat (sint y * sint w + sint w)"
      using k0_nonneg lt by (simp add: k0_def)
    have other: "nat (sint y * sint w + sint x) \<noteq> k0" if "sint (x0 + 1) \<le> sint x" for x :: jint
      using that k0_nonneg by (simp add: succ k0_def)
    have self: "x = x0" if "sint x0 \<le> sint x \<and> \<not> sint (x0 + 1) \<le> sint x" for x :: jint
    proof -
      from that have "sint x = sint x0" by (simp add: succ)
      then show ?thesis by (rule signed_word_eqI)
    qed
    show ?thesis
    proof (cases "case isPixelSet of None \<Rightarrow> Inr False
                 | Some flags \<Rightarrow> array_get MaskIndex flags (y * w + x0)")
      case (Inl err)
      then have "render_columns pixel w bx by isPixelSet y x0 arr = Inl err"
        using True by (subst render_columns.simps) (simp add: Let_def)
      with "1.prems"(1) show ?thesis by simp
    next
      case (Inr skip)
      have skip_eq: "skip = is_set isPixelSet k0"
        using Inr nat_idx
        by (auto simp: is_set_def array_get_def split: option.splits if_splits)
      show ?thesis
      proof (cases skip)
        case True
        then have True: "skip = True" by simp
        have run: "render_columns pixel w bx by isPixelSet y (x0 + 1) arr = Inr out"
          using "1.prems"(1) \<open>x0 <s w\<close> Inr True
          by (subst (asm) render_columns.simps) (simp add: Let_def)
        have ih: "length out = length arr \<and>
            (\<forall>k. k < Suc k0 \<or> nat (sint y * sint w + sint w) \<le> k \<longrightarrow> out ! k = arr ! k) \<and>
            (\<forall>x. sint (x0 + 1) \<le> sint x \<and> sint x < sint w \<longrightarrow>
              (is_set isPixelSet (nat (sint y * sint w + sint x)) \<longrightarrow>
                 out ! nat (sint y * sint w + sint x) = arr ! nat (sint y * sint w + sint x)) \<and>
              (\<not> is_set isPixelSet (nat (sint y * sint w + sint x)) \<longrightarrow>
                 pixel (bx + x) (by + y) = Inr (out ! nat (sint y * sint w + sint x))))"
          by (rule "1.IH"(1) [OF \<open>x0 <s w\<close> refl Inr [unfolded True] refl run nn
                "1.prems"(3,4,5), unfolded next_start])
        have here: "out ! k0 = arr ! k0" using ih by simp
        show ?thesis
        proof (intro conjI allI impI)
          show "length out = length arr" using ih by simp
        next
          fix k assume "k < nat (sint y * sint w + sint x0) \<or> nat (sint y * sint w + sint w) \<le> k"
          then show "out ! k = arr ! k" using ih by (auto simp: k0_def)
        next
          fix x :: jint assume x: "sint x0 \<le> sint x \<and> sint x < sint w"
            and "is_set isPixelSet (nat (sint y * sint w + sint x))"
          then show "out ! nat (sint y * sint w + sint x) = arr ! nat (sint y * sint w + sint x)"
            using ih here self [of x] by (cases "sint (x0 + 1) \<le> sint x") (auto simp: k0_def)
        next
          fix x :: jint assume x: "sint x0 \<le> sint x \<and> sint x < sint w"
            and ns: "\<not> is_set isPixelSet (nat (sint y * sint w + sint x))"
          show "pixel (bx + x) (by + y) = Inr (out ! nat (sint y * sint w + sint x))"
          proof (cases "sint (x0 + 1) \<le> sint x")
            case True
            then show ?thesis using ih x ns by simp
          next
            case False
            with x self [of x] have "x = x0" by simp
            with ns skip_eq \<open>skip\<close> show ?thesis by (simp add: k0_def)
          qed
        qed
      next
        case False
        then have skip_False: "skip = False" by simp
        show ?thesis
        proof (cases "pixel (bx + x0) (by + y)")
          case (Inl err)
          then have "render_columns pixel w bx by isPixelSet y x0 arr = Inl err"
            using \<open>x0 <s w\<close> Inr False by (subst render_columns.simps) (simp add: Let_def)
          with "1.prems"(1) show ?thesis by simp
        next
          case color: (Inr color)
          show ?thesis
          proof (cases "array_set OutputIndex arr (y * w + x0) color")
            case (Inl err)
            then have "render_columns pixel w bx by isPixelSet y x0 arr = Inl err"
              using \<open>x0 <s w\<close> Inr False color
              by (subst render_columns.simps) (simp add: Let_def)
            with "1.prems"(1) show ?thesis by simp
          next
            case arr': (Inr arr')
            then have arr'_eq: "arr' = arr[k0 := color]" and inb: "k0 < length arr"
              using nat_idx by (auto simp: array_set_def in_bounds_def split: if_splits)
            have run: "render_columns pixel w bx by isPixelSet y (x0 + 1) arr' = Inr out"
              using "1.prems"(1) \<open>x0 <s w\<close> Inr False color arr'
              by (subst (asm) render_columns.simps) (simp add: Let_def)
            have ih: "length out = length arr' \<and>
                (\<forall>k. k < Suc k0 \<or> nat (sint y * sint w + sint w) \<le> k \<longrightarrow> out ! k = arr' ! k) \<and>
                (\<forall>x. sint (x0 + 1) \<le> sint x \<and> sint x < sint w \<longrightarrow>
                  (is_set isPixelSet (nat (sint y * sint w + sint x)) \<longrightarrow>
                     out ! nat (sint y * sint w + sint x)
                       = arr' ! nat (sint y * sint w + sint x)) \<and>
                  (\<not> is_set isPixelSet (nat (sint y * sint w + sint x)) \<longrightarrow>
                     pixel (bx + x) (by + y) = Inr (out ! nat (sint y * sint w + sint x))))"
              by (rule "1.IH"(2) [OF \<open>x0 <s w\<close> refl Inr [unfolded skip_False] refl color arr'
                    run nn "1.prems"(3,4,5), unfolded next_start])
            have here: "out ! k0 = color" using ih inb by (simp add: arr'_eq)
            show ?thesis
            proof (intro conjI allI impI)
              show "length out = length arr" using ih by (simp add: arr'_eq)
            next
              fix k
              assume k: "k < nat (sint y * sint w + sint x0) \<or> nat (sint y * sint w + sint w) \<le> k"
              then have "k \<noteq> k0" using row_end by (auto simp: k0_def)
              moreover have "out ! k = arr' ! k" using ih k row_end by (auto simp: k0_def)
              ultimately show "out ! k = arr ! k" by (simp add: arr'_eq)
            next
              fix x :: jint assume x: "sint x0 \<le> sint x \<and> sint x < sint w"
                and s: "is_set isPixelSet (nat (sint y * sint w + sint x))"
              show "out ! nat (sint y * sint w + sint x) = arr ! nat (sint y * sint w + sint x)"
              proof (cases "sint (x0 + 1) \<le> sint x")
                case True
                then show ?thesis using ih x s other [of x] by (simp add: arr'_eq)
              next
                case False
                with x self [of x] have "x = x0" by simp
                with s skip_eq \<open>\<not> skip\<close> show ?thesis by (simp add: k0_def)
              qed
            next
              fix x :: jint assume x: "sint x0 \<le> sint x \<and> sint x < sint w"
                and ns: "\<not> is_set isPixelSet (nat (sint y * sint w + sint x))"
              show "pixel (bx + x) (by + y) = Inr (out ! nat (sint y * sint w + sint x))"
              proof (cases "sint (x0 + 1) \<le> sint x")
                case True
                then show ?thesis using ih x ns by simp
              next
                case False
                with x self [of x] have "x = x0" by simp
                then show ?thesis using color here by (simp add: k0_def)
              qed
            qed
          qed
        qed
      qed
    qed
  qed
qed

lemma render_rows_result:
  assumes "render_rows pixel h w bx by isPixelSet y0 arr = Inr out"
      and "0 \<le> sint y0" and "sint h * sint w < 2 ^ 31"
  shows "length out = length arr \<and>
         (\<forall>k. k < nat (sint y0 * sint w) \<longrightarrow> out ! k = arr ! k) \<and>
         (\<forall>y x. sint y0 \<le> sint y \<and> sint y < sint h \<and> 0 \<le> sint x \<and> sint x < sint w \<longrightarrow>
              (is_set isPixelSet (nat (sint y * sint w + sint x)) \<longrightarrow>
                 out ! nat (sint y * sint w + sint x) = arr ! nat (sint y * sint w + sint x)) \<and>
              (\<not> is_set isPixelSet (nat (sint y * sint w + sint x)) \<longrightarrow>
                 pixel (bx + x) (by + y) = Inr (out ! nat (sint y * sint w + sint x))))"
  using assms
proof (induction pixel h w bx "by" isPixelSet y0 arr rule: render_rows.induct)
  case (1 pixel h w bx "by" isPixelSet y0 arr)
  show ?case
  proof (cases "y0 <s h")
    case False
    then have "render_rows pixel h w bx by isPixelSet y0 arr = Inr arr"
      by (subst render_rows.simps) simp
    with "1.prems"(1) have "out = arr" by simp
    moreover have "\<not> sint y0 < sint h" using False by (simp add: word_sless_alt)
    ultimately show ?thesis by auto
  next
    case True
    then have lt: "sint y0 < sint h" by (simp add: word_sless_alt)
    have succ: "sint (y0 + 1) = sint y0 + 1" using True by (rule sint_succ_less)
    have nn: "0 \<le> sint (y0 + 1)" using succ "1.prems"(2) by simp
    show ?thesis
    proof (cases "render_columns pixel w bx by isPixelSet y0 0 arr")
      case (Inl err)
      then have "render_rows pixel h w bx by isPixelSet y0 arr = Inl err"
        using True by (subst render_rows.simps) simp
      with "1.prems"(1) show ?thesis by simp
    next
      case (Inr arr1)
      have run: "render_rows pixel h w bx by isPixelSet (y0 + 1) arr1 = Inr out"
        using "1.prems"(1) True Inr by (subst (asm) render_rows.simps) simp
      have zero: "0 \<le> sint (0 :: jint)" by simp
      note row = render_columns_result [OF Inr zero "1.prems"(2) lt "1.prems"(3)]
      note rest = "1.IH" [OF True Inr run nn "1.prems"(3)]
      have start: "sint (y0 + 1) * sint w = sint y0 * sint w + sint w"
        unfolding succ by (simp add: distrib_right)
      show ?thesis
      proof (intro conjI allI impI)
        show "length out = length arr" using row rest by simp
      next
        fix k assume k: "k < nat (sint y0 * sint w)"
        then have "k < nat (sint (y0 + 1) * sint w)"
          unfolding start using "1.prems"(2)
          by (cases "0 \<le> sint w") (auto simp: mult_nonneg_nonpos not_le)
        then have "out ! k = arr1 ! k" using rest by simp
        moreover have "arr1 ! k = arr ! k" using row k by simp
        ultimately show "out ! k = arr ! k" by simp
      next
        fix y x :: jint
        assume p: "sint y0 \<le> sint y \<and> sint y < sint h \<and> 0 \<le> sint x \<and> sint x < sint w"
          and s: "is_set isPixelSet (nat (sint y * sint w + sint x))"
        show "out ! nat (sint y * sint w + sint x) = arr ! nat (sint y * sint w + sint x)"
        proof (cases "sint (y0 + 1) \<le> sint y")
          case True
          then have "out ! nat (sint y * sint w + sint x) = arr1 ! nat (sint y * sint w + sint x)"
            using rest p s by simp
          moreover have "sint (y0 + 1) * sint w \<le> sint y * sint w"
            using True p by (intro mult_right_mono) simp_all
          then have "nat (sint y0 * sint w + sint w) \<le> nat (sint y * sint w + sint x)"
            unfolding start using p by linarith
          then have "arr1 ! nat (sint y * sint w + sint x) = arr ! nat (sint y * sint w + sint x)"
            using row by simp
          ultimately show ?thesis by simp
        next
          case False
          with p have "sint y = sint y0" by (simp add: succ)
          then have y: "y = y0" by (rule signed_word_eqI)
          have "nat (sint y0 * sint w + sint x) < nat (sint (y0 + 1) * sint w)"
            unfolding start using p row_major_bounds(3) [of "sint y0" "sint h" "sint x" "sint w"]
              "1.prems"(2) lt by linarith
          then have "out ! nat (sint y0 * sint w + sint x) = arr1 ! nat (sint y0 * sint w + sint x)"
            using rest by simp
          moreover have "arr1 ! nat (sint y0 * sint w + sint x) = arr ! nat (sint y0 * sint w + sint x)"
            using row p s by (simp add: y)
          ultimately show ?thesis by (simp add: y)
        qed
      next
        fix y x :: jint
        assume p: "sint y0 \<le> sint y \<and> sint y < sint h \<and> 0 \<le> sint x \<and> sint x < sint w"
          and ns: "\<not> is_set isPixelSet (nat (sint y * sint w + sint x))"
        show "pixel (bx + x) (by + y) = Inr (out ! nat (sint y * sint w + sint x))"
        proof (cases "sint (y0 + 1) \<le> sint y")
          case True
          then show ?thesis using rest p ns by simp
        next
          case False
          with p have "sint y = sint y0" by (simp add: succ)
          then have y: "y = y0" by (rule signed_word_eqI)
          have "nat (sint y0 * sint w + sint x) < nat (sint (y0 + 1) * sint w)"
            unfolding start using p row_major_bounds(3) [of "sint y0" "sint h" "sint x" "sint w"]
              "1.prems"(2) lt by linarith
          then have "out ! nat (sint y0 * sint w + sint x) = arr1 ! nat (sint y0 * sint w + sint x)"
            using rest by simp
          moreover have "pixel (bx + x) (by + y0) = Inr (arr1 ! nat (sint y0 * sint w + sint x))"
            using row p ns by (simp add: y)
          ultimately show ?thesis by (simp add: y)
        qed
      qed
    qed
  qed
qed

lemma in_bounds_palette:
  assumes "0 \<le> sint k" and "sint k \<le> sint maxIterations"
      and "length colorPalette = nat (sint maxIterations) + 1"
  shows "in_bounds colorPalette k"
  using assms by (simp add: in_bounds_def)

lemma palette_read_ok:
  assumes "0 < sint maxIterations" and "sint maxIterations \<le> 2 ^ 30"
      and "length colorPalette = nat (sint maxIterations) + 1"
  shows "\<exists>c. array_get PaletteIndex colorPalette (palette_index i off maxIterations) = Inr c"
proof -
  have "in_bounds colorPalette (palette_index i off maxIterations)"
    using palette_index_bounds [OF assms(1,2), of i off] assms(3)
    by (intro in_bounds_palette [where maxIterations = maxIterations]) simp_all
  then show ?thesis by (simp add: array_get_def)
qed

lemma smooth_color_ok:
  assumes "0 < sint maxIterations" and "sint maxIterations \<le> 2 ^ 30"
      and "length colorPalette = nat (sint maxIterations) + 1"
  shows "\<exists>c. smooth_color pf colorPalette colorOffset maxIterations i nu = Inr c"
proof -
  obtain c1 where c1: "array_get PaletteIndex colorPalette
      (palette_index (int_of_fp pf (continuous_index i nu)) colorOffset maxIterations) = Inr c1"
    using palette_read_ok [OF assms] by blast
  obtain c2 where c2: "array_get PaletteIndex colorPalette
      (palette_index (int_of_fp pf (continuous_index i nu) + 1) colorOffset maxIterations) = Inr c2"
    using palette_read_ok [OF assms] by blast
  show ?thesis
    by (simp add: smooth_color_def Let_def c1 c2)
qed

lemma calculate_pixel_color_ok:
  assumes "0 \<le> sint maxIterations" and "sint maxIterations \<le> 2 ^ 30"
      and "length colorPalette = nat (sint maxIterations) + 1"
      and "length (logMagnitudeLookupTable tabs) = 65536"
      and "length (logLogLookupTable tabs) = 65536"
  shows "\<exists>c. calculate_pixel_color pf tabs x y transform maxIterations escapeRadiusSquared
           colorPalette colorOffset smoothColors useLog2Lookup
           logMagnitudeScaleFactor logLogScaleFactor log2_2 = Inr c"
proof -
  obtain c_re c_im where c: "pixel_c transform x y = (c_re, c_im)"
    by (cases "pixel_c transform x y")
  obtain i z_re z_im where
    run: "escape_loop maxIterations escapeRadiusSquared c_re c_im 0 (dlit 0 1) (dlit 0 1)
           = (i, z_re, z_im)"
    using prod_cases3 by blast
  note facts = escape_loop_from_zero [OF run assms(1)]
  show ?thesis
  proof (cases "i = maxIterations")
    case True
    have "in_bounds colorPalette maxIterations"
      using assms(1,3) by (intro in_bounds_palette [where maxIterations = maxIterations]) simp_all
    then show ?thesis
      using c run True by (simp add: calculate_pixel_color_def array_get_def)
  next
    case False
    have "sint i \<noteq> sint maxIterations"
      using False signed_word_eqI by blast
    with facts have pos: "0 < sint maxIterations" by linarith
    show ?thesis
    proof (cases smoothColors)
      case True
      obtain nu where nu: "smooth_nu pf tabs useLog2Lookup
          (dadd (dmul z_re z_re) (dmul z_im z_im))
          logMagnitudeScaleFactor logLogScaleFactor log2_2 = Inr nu"
        using smooth_nu_lookup_ok [OF assms(4,5)] by blast
      show ?thesis
        using c run False True nu smooth_color_ok [OF pos assms(2,3)]
        by (simp add: calculate_pixel_color_def Let_def)
    next
      case nonsmooth: False
      show ?thesis
        using c run False nonsmooth palette_read_ok [OF pos assms(2,3)]
        by (simp add: calculate_pixel_color_def)
    qed
  qed
qed

lemma render_columns_ok:
  assumes "\<forall>px py. \<exists>c. pixel px py = Inr c"
      and "int (length arr) = sint (h :: jint) * sint w" and "sint h * sint w < 2 ^ 31"
      and "case isPixelSet of None \<Rightarrow> True | Some flags \<Rightarrow> length flags = length arr"
      and "0 \<le> sint x0" and "0 \<le> sint y" and "sint y < sint h"
  shows "\<exists>out. render_columns pixel w bx by isPixelSet y x0 arr = Inr out"
  using assms
proof (induction pixel w bx "by" isPixelSet y x0 arr rule: render_columns.induct)
  case (1 pixel w bx "by" isPixelSet y x0 arr)
  show ?case
  proof (cases "x0 <s w")
    case False
    then show ?thesis by (subst render_columns.simps) simp
  next
    case True
    then have lt: "sint x0 < sint w" by (simp add: word_sless_alt)
    have succ: "sint (x0 + 1) = sint x0 + 1" using True by (rule sint_succ_less)
    have nn: "0 \<le> sint (x0 + 1)" using succ "1.prems"(5) by simp
    have idx: "sint (y * w + x0) = sint y * sint w + sint x0"
      using "1.prems" lt by (intro sint_row_major [where h = h]) simp_all
    note b = row_major_bounds [OF "1.prems"(6,7,5) lt]
    have inb: "in_bounds arr (y * w + x0)"
      using b "1.prems"(2) by (simp add: in_bounds_def idx)
    obtain skip where skip: "(case isPixelSet of None \<Rightarrow> Inr False
        | Some flags \<Rightarrow> array_get MaskIndex flags (y * w + x0)) = Inr skip"
      using "1.prems"(4) inb
      by (cases isPixelSet) (auto simp: array_get_def in_bounds_def)
    show ?thesis
    proof (cases skip)
      case True
      then have t: "skip = True" by simp
      have "\<exists>out. render_columns pixel w bx by isPixelSet y (x0 + 1) arr = Inr out"
        by (rule "1.IH"(1) [OF \<open>x0 <s w\<close> refl skip [unfolded t] refl "1.prems"(1,2,3,4) nn
              "1.prems"(6,7)])
      then show ?thesis
        using \<open>x0 <s w\<close> skip t by (subst render_columns.simps) (simp add: Let_def)
    next
      case False
      then have f: "skip = False" by simp
      obtain color where color: "pixel (bx + x0) (by + y) = Inr color"
        using "1.prems"(1) by blast
      have set: "array_set OutputIndex arr (y * w + x0) color
          = Inr (arr[nat (sint (y * w + x0)) := color])"
        using inb by (simp add: array_set_def)
      have len: "int (length (arr[nat (sint (y * w + x0)) := color])) = sint h * sint w"
        using "1.prems"(2) by simp
      have flags: "case isPixelSet of None \<Rightarrow> True
          | Some flags \<Rightarrow> length flags = length (arr[nat (sint (y * w + x0)) := color])"
        using "1.prems"(4) by (cases isPixelSet) simp_all
      have "\<exists>out. render_columns pixel w bx by isPixelSet y (x0 + 1)
          (arr[nat (sint (y * w + x0)) := color]) = Inr out"
        by (rule "1.IH"(2) [OF \<open>x0 <s w\<close> refl skip [unfolded f] refl color set "1.prems"(1)
              len "1.prems"(3) flags nn "1.prems"(6,7)])
      then show ?thesis
        using \<open>x0 <s w\<close> skip f color set
        by (subst render_columns.simps) (simp add: Let_def)
    qed
  qed
qed

lemma render_rows_ok:
  assumes "\<forall>px py. \<exists>c. pixel px py = Inr c"
      and "int (length arr) = sint h * sint w" and "sint h * sint w < 2 ^ 31"
      and "case isPixelSet of None \<Rightarrow> True | Some flags \<Rightarrow> length flags = length arr"
      and "0 \<le> sint y0"
  shows "\<exists>out. render_rows pixel h w bx by isPixelSet y0 arr = Inr out"
  using assms
proof (induction pixel h w bx "by" isPixelSet y0 arr rule: render_rows.induct)
  case (1 pixel h w bx "by" isPixelSet y0 arr)
  show ?case
  proof (cases "y0 <s h")
    case False
    then show ?thesis by (subst render_rows.simps) simp
  next
    case True
    then have lt: "sint y0 < sint h" by (simp add: word_sless_alt)
    have succ: "sint (y0 + 1) = sint y0 + 1" using True by (rule sint_succ_less)
    have nn: "0 \<le> sint (y0 + 1)" using succ "1.prems"(5) by simp
    have zero: "0 \<le> sint (0 :: jint)" by simp
    obtain arr1 where row: "render_columns pixel w bx by isPixelSet y0 0 arr = Inr arr1"
      using render_columns_ok [OF "1.prems"(1,2,3,4) zero "1.prems"(5) lt] by blast
    have same: "length arr1 = length arr"
      using render_columns_result [OF row zero "1.prems"(5) lt "1.prems"(3)] by simp
    have len: "int (length arr1) = sint h * sint w"
      using "1.prems"(2) same by simp
    have flags: "case isPixelSet of None \<Rightarrow> True | Some flags \<Rightarrow> length flags = length arr1"
      using "1.prems"(4) same by (cases isPixelSet) simp_all
    have "\<exists>out. render_rows pixel h w bx by isPixelSet (y0 + 1) arr1 = Inr out"
      by (rule "1.IH" [OF True row "1.prems"(1) len "1.prems"(3) flags nn])
    then show ?thesis
      using True row by (subst render_rows.simps) simp
  qed
qed

section \<open>The skip mask\<close>

text \<open>
  C6: for a call whose output buffer (and mask, when there is one) has
  \<open>blockWidth \<sqdot> blockHeight\<close> entries, every result of the call leaves the output entry
  at the row-major index \<open>y \<sqdot> blockWidth + x\<close> unchanged when the mask marks the pixel as
  already set, and otherwise holds there the colour computed for the absolute
  coordinates \<open>(blockX + x, blockY + y)\<close>. The call does have a result when the palette
  has \<open>maxIterations + 1\<close> entries with \<open>0 \<le> maxIterations \<le> 2\<^sup>3\<^sup>0\<close> and the tables have
  65536 entries: no read or write leaves its array.
\<close>

theorem skip_mask_honored:
  assumes "int (length colorArray) = sint currentBlockHeight * sint currentBlockWidth"
      and "length colorArray < 2 ^ 31"
      and "case isPixelSet of None \<Rightarrow> True | Some flags \<Rightarrow> length flags = length colorArray"
  shows "(\<forall>out.
            mandelbrotRenderBlock pf tabs currentBlockHeight currentBlockWidth blockX blockY
              zx_x' zx_y' zx_c' zy_x' zy_y' zy_c' maxIterations escapeRadiusSquared colorPalette
              colorOffset smoothColors useLog2Lookup logMagnitudeScaleFactor logLogScaleFactor
              log2_2 isPixelSet colorArray = Inr out \<longrightarrow>
            length out = length colorArray \<and>
            (\<forall>x y. 0 \<le> sint x \<and> sint x < sint currentBlockWidth \<and>
                   0 \<le> sint y \<and> sint y < sint currentBlockHeight \<longrightarrow>
               (is_set isPixelSet (nat (sint y * sint currentBlockWidth + sint x)) \<longrightarrow>
                  out ! nat (sint y * sint currentBlockWidth + sint x)
                    = colorArray ! nat (sint y * sint currentBlockWidth + sint x)) \<and>
               (\<not> is_set isPixelSet (nat (sint y * sint currentBlockWidth + sint x)) \<longrightarrow>
                  calculate_pixel_color pf tabs (blockX + x) (blockY + y)
                    \<lparr>zx_x = zx_x', zx_y = zx_y', zx_c = zx_c',
                     zy_x = zy_x', zy_y = zy_y', zy_c = zy_c'\<rparr>
                    maxIterations escapeRadiusSquared colorPalette colorOffset smoothColors
                    useLog2Lookup logMagnitudeScaleFactor logLogScaleFactor log2_2
                  = Inr (out ! nat (sint y * sint currentBlockWidth + sint x))))) \<and>
         (0 \<le> sint maxIterations \<and> sint maxIterations \<le> 2 ^ 30 \<and>
          length colorPalette = nat (sint maxIterations) + 1 \<and>
          length (logMagnitudeLookupTable tabs) = 65536 \<and>
          length (logLogLookupTable tabs) = 65536 \<longrightarrow>
          (\<exists>out.
            mandelbrotRenderBlock pf tabs currentBlockHeight currentBlockWidth blockX blockY
              zx_x' zx_y' zx_c' zy_x' zy_y' zy_c' maxIterations escapeRadiusSquared colorPalette
              colorOffset smoothColors useLog2Lookup logMagnitudeScaleFactor logLogScaleFactor
              log2_2 isPixelSet colorArray = Inr out))"
proof -
  from assms(2) have "int (length colorArray) < 2 ^ 31"
    by simp
  then have size: "sint currentBlockHeight * sint currentBlockWidth < 2 ^ 31"
    by (simp add: assms(1))
  have zero: "0 \<le> sint (0 :: jint)" by simp
  define pixel where "pixel = (\<lambda>px py.
      calculate_pixel_color pf tabs px py
        \<lparr>zx_x = zx_x', zx_y = zx_y', zx_c = zx_c', zy_x = zy_x', zy_y = zy_y', zy_c = zy_c'\<rparr>
        maxIterations escapeRadiusSquared colorPalette colorOffset smoothColors useLog2Lookup
        logMagnitudeScaleFactor logLogScaleFactor log2_2)"
  have block: "mandelbrotRenderBlock pf tabs currentBlockHeight currentBlockWidth blockX blockY
      zx_x' zx_y' zx_c' zy_x' zy_y' zy_c' maxIterations escapeRadiusSquared colorPalette
      colorOffset smoothColors useLog2Lookup logMagnitudeScaleFactor logLogScaleFactor
      log2_2 isPixelSet colorArray
    = render_rows pixel currentBlockHeight currentBlockWidth blockX blockY isPixelSet 0
        colorArray"
    by (simp add: mandelbrotRenderBlock_def pixel_def Let_def)
  show ?thesis
  proof (intro conjI allI impI)
    fix out
    assume "mandelbrotRenderBlock pf tabs currentBlockHeight currentBlockWidth blockX blockY
      zx_x' zx_y' zx_c' zy_x' zy_y' zy_c' maxIterations escapeRadiusSquared colorPalette
      colorOffset smoothColors useLog2Lookup logMagnitudeScaleFactor logLogScaleFactor
      log2_2 isPixelSet colorArray = Inr out"
    then have run: "render_rows pixel currentBlockHeight currentBlockWidth blockX blockY
        isPixelSet 0 colorArray = Inr out"
      by (simp add: block)
    note res = render_rows_result [OF run zero size]
    show "length out = length colorArray" using res by simp
    fix x y :: jint
    assume p: "0 \<le> sint x \<and> sint x < sint currentBlockWidth \<and>
               0 \<le> sint y \<and> sint y < sint currentBlockHeight"
    {
      assume "is_set isPixelSet (nat (sint y * sint currentBlockWidth + sint x))"
      then show "out ! nat (sint y * sint currentBlockWidth + sint x)
          = colorArray ! nat (sint y * sint currentBlockWidth + sint x)"
        using res p by simp
    next
      assume "\<not> is_set isPixelSet (nat (sint y * sint currentBlockWidth + sint x))"
      then have "pixel (blockX + x) (blockY + y)
          = Inr (out ! nat (sint y * sint currentBlockWidth + sint x))"
        using res p by simp
      then show "calculate_pixel_color pf tabs (blockX + x) (blockY + y)
          \<lparr>zx_x = zx_x', zx_y = zx_y', zx_c = zx_c', zy_x = zy_x', zy_y = zy_y', zy_c = zy_c'\<rparr>
          maxIterations escapeRadiusSquared colorPalette colorOffset smoothColors
          useLog2Lookup logMagnitudeScaleFactor logLogScaleFactor log2_2
        = Inr (out ! nat (sint y * sint currentBlockWidth + sint x))"
        by (simp add: pixel_def)
    }
  next
    assume contract: "0 \<le> sint maxIterations \<and> sint maxIterations \<le> 2 ^ 30 \<and>
        length colorPalette = nat (sint maxIterations) + 1 \<and>
        length (logMagnitudeLookupTable tabs) = 65536 \<and>
        length (logLogLookupTable tabs) = 65536"
    have "\<forall>px py. \<exists>c. pixel px py = Inr c"
      unfolding pixel_def using contract by (intro allI calculate_pixel_color_ok) simp_all
    from render_rows_ok [OF this assms(1) size assms(3) zero]
    show "\<exists>out. mandelbrotRenderBlock pf tabs currentBlockHeight currentBlockWidth blockX blockY
        zx_x' zx_y' zx_c' zy_x' zy_y' zy_c' maxIterations escapeRadiusSquared colorPalette
        colorOffset smoothColors useLog2Lookup logMagnitudeScaleFactor logLogScaleFactor
        log2_2 isPixelSet colorArray = Inr out"
      by (simp add: block)
  qed
qed

theorem skip_mask_honored_witness:
  "int (length [1, 2, 3, 4 :: jint]) = sint (2 :: jint) * sint (2 :: jint) \<and>
   length [1, 2, 3, 4 :: jint] < 2 ^ 31 \<and>
   length [True, False, False, True] = length [1, 2, 3, 4 :: jint] \<and>
   0 \<le> sint (3 :: jint) \<and> sint (3 :: jint) \<le> 2 ^ 30 \<and>
   length [10, 11, 12, 13 :: jint] = nat (sint (3 :: jint)) + 1 \<and>
   length (logMagnitudeLookupTable initial_tables) = 65536 \<and>
   length (logLogLookupTable initial_tables) = 65536 \<and>
   mandelbrotRenderBlock ref_platform initial_tables 2 2 5 7
     (dlit 0 1) (dlit 0 1) (dlit 0 1) (dlit 0 1) (dlit 0 1) (dlit 0 1)
     3 (dlit 4 1) [10, 11, 12, 13] 0 True True (dlit 65535 32) (dlit 65535000 1585) (dlit 1 1)
     (Some [True, False, False, True]) [1, 2, 3, 4]
   = Inr [1, 13, 13, 4]"
proof -
  have a: "int (length [1, 2, 3, 4 :: jint]) = sint (2 :: jint) * sint (2 :: jint)"
    "length [1, 2, 3, 4 :: jint] < 2 ^ 31"
    "case Some [True, False, False, True] of None \<Rightarrow> True
     | Some flags \<Rightarrow> length flags = length [1, 2, 3, 4 :: jint]"
    by simp_all
  have contract: "0 \<le> sint (3 :: jint) \<and> sint (3 :: jint) \<le> 2 ^ 30 \<and>
      length [10, 11, 12, 13 :: jint] = nat (sint (3 :: jint)) + 1 \<and>
      length (logMagnitudeLookupTable initial_tables) = 65536 \<and>
      length (logLogLookupTable initial_tables) = 65536"
    by (simp add: length_initial_tables)
  note block = skip_mask_honored [OF a, of ref_platform initial_tables 5 7
      "dlit 0 1" "dlit 0 1" "dlit 0 1" "dlit 0 1" "dlit 0 1" "dlit 0 1"
      3 "dlit 4 1" "[10, 11, 12, 13]" 0 True True "dlit 65535 32" "dlit 65535000 1585" "dlit 1 1"]
  from block contract obtain out where
    run: "mandelbrotRenderBlock ref_platform initial_tables 2 2 5 7
       (dlit 0 1) (dlit 0 1) (dlit 0 1) (dlit 0 1) (dlit 0 1) (dlit 0 1)
       3 (dlit 4 1) [10, 11, 12, 13] 0 True True (dlit 65535 32) (dlit 65535000 1585) (dlit 1 1)
       (Some [True, False, False, True]) [1, 2, 3, 4] = Inr out"
    by blast
  with block have len: "length out = 4"
    and px: "\<And>x y :: jint. 0 \<le> sint x \<and> sint x < sint (2 :: jint) \<and>
               0 \<le> sint y \<and> sint y < sint (2 :: jint) \<Longrightarrow>
       (is_set (Some [True, False, False, True]) (nat (sint y * sint (2 :: jint) + sint x)) \<longrightarrow>
          out ! nat (sint y * sint (2 :: jint) + sint x)
            = [1, 2, 3, 4] ! nat (sint y * sint (2 :: jint) + sint x)) \<and>
       (\<not> is_set (Some [True, False, False, True]) (nat (sint y * sint (2 :: jint) + sint x)) \<longrightarrow>
          calculate_pixel_color ref_platform initial_tables (5 + x) (7 + y)
            \<lparr>zx_x = dlit 0 1, zx_y = dlit 0 1, zx_c = dlit 0 1,
             zy_x = dlit 0 1, zy_y = dlit 0 1, zy_c = dlit 0 1\<rparr>
            3 (dlit 4 1) [10, 11, 12, 13] 0 True True
            (dlit 65535 32) (dlit 65535000 1585) (dlit 1 1)
          = Inr (out ! nat (sint y * sint (2 :: jint) + sint x)))"
    by simp_all
  have c: "pixel_c \<lparr>zx_x = dlit 0 1, zx_y = dlit 0 1, zx_c = dlit 0 1,
             zy_x = dlit 0 1, zy_y = dlit 0 1, zy_c = dlit 0 1\<rparr> px py = (dlit 0 1, dlit 0 1)"
    if "px = 6 \<and> py = 7 \<or> px = 5 \<and> py = 8" for px py
    using that by (elim disjE conjE; hypsubst) code_simp+
  have loop: "escape_loop 3 (dlit 4 1) (dlit 0 1) (dlit 0 1) 0 (dlit 0 1) (dlit 0 1)
      = (3, dlit 0 1, dlit 0 1)"
    by code_simp
  have interior: "calculate_pixel_color ref_platform initial_tables px py
            \<lparr>zx_x = dlit 0 1, zx_y = dlit 0 1, zx_c = dlit 0 1,
             zy_x = dlit 0 1, zy_y = dlit 0 1, zy_c = dlit 0 1\<rparr>
            3 (dlit 4 1) [10, 11, 12, 13] 0 True True
            (dlit 65535 32) (dlit 65535000 1585) (dlit 1 1) = Inr 13"
    if "px = 6 \<and> py = 7 \<or> px = 5 \<and> py = 8" for px py
    using interior_color [OF c [OF that] loop] by (simp add: array_get_def in_bounds_def)
  have e0: "out ! 0 = 1" using px [of 0 0] by (simp add: is_set_def)
  have e1: "out ! 1 = 13" using px [of 1 0] interior [of 6 7] by (simp add: is_set_def)
  have e2: "out ! 2 = 13" using px [of 0 1] interior [of 5 8] by (simp add: is_set_def)
  have e3: "out ! 3 = 4" using px [of 1 1] by (simp add: is_set_def)
  have "out = [1, 13, 13, 4]"
  proof (rule nth_equalityI)
    show "length out = length [1, 13, 13, 4 :: jint]" using len by simp
  next
    fix i assume "i < length out"
    then consider "i = 0" | "i = 1" | "i = 2" | "i = 3" using len by linarith
    then show "out ! i = [1, 13, 13, 4] ! i"
      using e0 e1 e2 e3 by cases simp_all
  qed
  with run contract a show ?thesis by simp
qed

end
